theory Spec2Isabelle
  imports Main
begin

section \<open>Python strings\<close>

text \<open>
  The loader works on Python 3 \<open>str\<close> values. A \<^typ>\<open>char\<close> stands for one code point
  below 256; the functions below are the \<open>str\<close> methods the loader calls, restricted to
  such strings.
\<close>

definition NL :: char where
  "NL = CHR 0x0A"

definition DQ :: char where
  "DQ = CHR 0x22"

definition SQ :: char where
  "SQ = CHR 0x27"

text \<open>\<open>str.isspace\<close> for one code point below 256 (also what \<open>\s\<close> matches in \<open>re\<close>).\<close>

definition isspace :: "char \<Rightarrow> bool" where
  "isspace c = (c \<in> set [CHR 0x09, CHR 0x0A, CHR 0x0B, CHR 0x0C, CHR 0x0D,
                          CHR 0x1C, CHR 0x1D, CHR 0x1E, CHR 0x1F, CHR 0x20,
                          CHR 0x85, CHR 0xA0])"

definition lstrip :: "string \<Rightarrow> string" where
  "lstrip s = dropWhile isspace s"

definition rstrip :: "string \<Rightarrow> string" where
  "rstrip s = rev (dropWhile isspace (rev s))"

definition strip :: "string \<Rightarrow> string" where
  "strip s = lstrip (rstrip s)"

definition startswith :: "string \<Rightarrow> string \<Rightarrow> bool" where
  "startswith s p = (take (length p) s = p)"

text \<open>\<open>s.split(c)\<close> for a one-character separator: never the empty list.\<close>

fun split_on :: "char \<Rightarrow> string \<Rightarrow> string list" where
  "split_on c [] = [[]]"
| "split_on c (x # xs) =
     (if x = c then [] # split_on c xs
      else (case split_on c xs of [] \<Rightarrow> [[x]] | l # ls \<Rightarrow> (x # l) # ls))"

text \<open>\<open>sep.join(xs)\<close>.\<close>

fun join :: "string \<Rightarrow> string list \<Rightarrow> string" where
  "join sep [] = []"
| "join sep [x] = x"
| "join sep (x # y # ys) = x @ sep @ join sep (y # ys)"

definition split_nl :: "string \<Rightarrow> string list" where
  "split_nl s = split_on NL s"

definition join_nl :: "string list \<Rightarrow> string" where
  "join_nl xs = join [NL] xs"

text \<open>\<open>s.count(c)\<close> for one character.\<close>

definition count_char :: "char \<Rightarrow> string \<Rightarrow> nat" where
  "count_char c s = length (filter (\<lambda>x. x = c) s)"

text \<open>The slice \<open>s[a:-b]\<close> for \<open>a, b \<ge> 0\<close> (with \<open>b > 0\<close>).\<close>

definition slice_inner :: "nat \<Rightarrow> nat \<Rightarrow> string \<Rightarrow> string" where
  "slice_inner a b s = drop a (take (length s - b) s)"

subsection \<open>\<open>textwrap.dedent\<close>\<close>

text \<open>
  The standard library function as the interpreters that ship \<open>lib2to3\<close> define it:
  lines of blanks and tabs only are emptied, the margin is the longest common leading run of
  blanks and tabs of the remaining non-empty lines, and the margin is removed from the
  start of every line that has it.
\<close>

definition is_blank_char :: "char \<Rightarrow> bool" where
  "is_blank_char c = (c = CHR '' '' \<or> c = CHR 0x09)"

definition blank_out :: "string \<Rightarrow> string" where
  "blank_out l = (if list_all is_blank_char l then [] else l)"

fun first_diff :: "string \<Rightarrow> string \<Rightarrow> nat option" where
  "first_diff (x # xs) (y # ys) =
     (if x \<noteq> y then Some 0 else map_option Suc (first_diff xs ys))"
| "first_diff _ _ = None"

fun margin_step :: "string option \<Rightarrow> string \<Rightarrow> string option" where
  "margin_step None indent = Some indent"
| "margin_step (Some margin) indent =
     (if startswith indent margin then Some margin
      else if startswith margin indent then Some indent
      else (case first_diff margin indent of
              Some i \<Rightarrow> Some (take i margin)
            | None \<Rightarrow> Some margin))"

definition dedent_margin :: "string list \<Rightarrow> string option" where
  "dedent_margin ls =
     foldl margin_step None (map (takeWhile is_blank_char) (filter (\<lambda>l. l \<noteq> []) ls))"

definition remove_margin :: "string \<Rightarrow> string \<Rightarrow> string" where
  "remove_margin margin l = (if startswith l margin then drop (length margin) l else l)"

definition textwrap_dedent :: "string \<Rightarrow> string" where
  "textwrap_dedent text =
     (let ls = map blank_out (split_nl text) in
      case dedent_margin ls of
        None \<Rightarrow> join_nl ls
      | Some margin \<Rightarrow>
          if margin = [] then join_nl ls else join_nl (map (remove_margin margin) ls))"

text \<open>\<open>dedent_docstring\<close> of the loader.\<close>

definition dedent_docstring :: "string \<Rightarrow> string" where
  "dedent_docstring s =
     (case split_nl s of
        [] \<Rightarrow> []
      | l0 # ls \<Rightarrow> strip (join_nl (strip l0 # split_nl (textwrap_dedent (join_nl ls)))))"

section \<open>The concrete syntax tree of \<open>lib2to3\<close>\<close>

text \<open>
  Node kinds are the integers of \<open>lib2to3.pygram.python_symbols\<close> and
  \<open>lib2to3.pgen2.token\<close>; the ones the loader tests are named, every other one is
  \<open>other_kind n\<close>.
\<close>

datatype kind =
    syms_simple_stmt | syms_import_name | syms_import_from | syms_expr_stmt
  | syms_funcdef | syms_classdef | syms_async_stmt | syms_async_funcdef
  | syms_decorated | syms_decorator | syms_decorators
  | syms_parameters | syms_typedargslist | syms_tname
  | syms_arglist | syms_argument | syms_suite | syms_dotted_name
  | token_STRING | token_STAR | token_DOUBLESTAR | token_COMMA | token_EQUAL
  | token_COLON | token_RARROW
  | other_kind nat

text \<open>A \<open>Leaf\<close> has a type, a value, a prefix and a line number; a \<open>Node\<close> a type and children.\<close>

datatype tree =
    Leaf kind string string nat
  | Node kind "tree list"

datatype assert_msg = NoMsg | KindMsg kind | TreeMsg "tree option" | TreesMsg "tree list"

datatype error =
    AssertionError assert_msg
  | AttributeError
  | IndexError
  | RuntimeError

fun node_type :: "tree \<Rightarrow> kind" where
  "node_type (Leaf k v p n) = k"
| "node_type (Node k cs) = k"

fun is_Node :: "tree \<Rightarrow> bool" where
  "is_Node (Leaf k v p n) = False"
| "is_Node (Node k cs) = True"

text \<open>\<open>Base.children\<close> is the empty tuple on a leaf.\<close>

fun children :: "tree \<Rightarrow> tree list" where
  "children (Leaf k v p n) = []"
| "children (Node k cs) = cs"

text \<open>Only a leaf has a \<open>value\<close> attribute.\<close>

fun node_value :: "tree \<Rightarrow> error + string" where
  "node_value (Leaf k v p n) = Inr v"
| "node_value (Node k cs) = Inl AttributeError"

text \<open>The prefix of a node is the prefix of its first leaf, empty without children.\<close>

fun node_prefix :: "tree \<Rightarrow> string" where
  "node_prefix (Leaf k v p n) = p"
| "node_prefix (Node k []) = []"
| "node_prefix (Node k (c # cs)) = node_prefix c"

fun get_lineno :: "tree \<Rightarrow> nat option" where
  "get_lineno (Leaf k v p n) = Some n"
| "get_lineno (Node k []) = None"
| "get_lineno (Node k (c # cs)) = get_lineno c"

text \<open>\<open>xs[i]\<close> for \<open>i \<ge> 0\<close>.\<close>

definition index_at :: "'a list \<Rightarrow> nat \<Rightarrow> error + 'a" where
  "index_at xs i = (if i < length xs then Inr (xs ! i) else Inl IndexError)"

text \<open>\<open>find(predicate, iterable)\<close> of the loader.\<close>

fun find_first :: "('a \<Rightarrow> bool) \<Rightarrow> 'a list \<Rightarrow> 'a option" where
  "find_first P [] = None"
| "find_first P (x # xs) = (if P x then Some x else find_first P xs)"

subsection \<open>Nodes in their tree\<close>

text \<open>
  \<open>parent\<close> and \<open>prev_sibling\<close> need the place of a node in its tree. A located node is
  the node with the path to the root: for each ancestor its earlier children (nearest
  first), its type and its later children.
\<close>

type_synonym crumb = "tree list \<times> kind \<times> tree list"

type_synonym loc = "tree \<times> crumb list"

fun prev_sibling :: "loc \<Rightarrow> tree option" where
  "prev_sibling (t, []) = None"
| "prev_sibling (t, ([], k, rs) # ctx) = None"
| "prev_sibling (t, (l # ls, k, rs) # ctx) = Some l"

fun parent :: "loc \<Rightarrow> loc option" where
  "parent (t, []) = None"
| "parent (t, (ls, k, rs) # ctx) = Some (Node k (rev ls @ t # rs), ctx)"

text \<open>The children of a located node, each located.\<close>

fun locate_from :: "tree list \<Rightarrow> kind \<Rightarrow> crumb list \<Rightarrow> tree list \<Rightarrow> loc list" where
  "locate_from ls k ctx [] = []"
| "locate_from ls k ctx (c # cs) = (c, (ls, k, cs) # ctx) # locate_from (c # ls) k ctx cs"

fun loc_children :: "loc \<Rightarrow> loc list" where
  "loc_children (Leaf k v p n, ctx) = []"
| "loc_children (Node k cs, ctx) = locate_from [] k ctx cs"

section \<open>The trivia resolver\<close>

text \<open>The first loop of \<open>get_most_recent_prefix\<close>: \<open>Inl\<close> is its \<open>return ''\<close>.\<close>

function climb :: "loc \<Rightarrow> string + loc" where
  "climb n =
     (if prev_sibling n = None \<and> node_prefix (fst n) = [] then
        (case parent n of None \<Rightarrow> Inl [] | Some p \<Rightarrow> climb p)
      else Inr n)"
  by pat_completeness auto
termination
  by (relation "measure (\<lambda>n. length (snd n))") (auto elim: parent.elims)

text \<open>The second loop: down the last children.\<close>

function rightmost :: "tree \<Rightarrow> tree" where
  "rightmost (Leaf k v p n) = Leaf k v p n"
| "rightmost (Node k cs) = (if cs = [] then Node k cs else rightmost (last cs))"
  by pat_completeness auto
termination
proof (relation "measure size")
  show "wf (measure size)" by simp
next
  fix k :: kind and cs :: "tree list"
  assume "cs \<noteq> []"
  then have "last cs \<in> set cs" by simp
  then have "size (last cs) \<le> size_list size cs" by (rule size_list_estimation') simp
  then show "(last cs, Node k cs) \<in> measure size" by simp
qed

definition get_most_recent_prefix :: "loc \<Rightarrow> error + string" where
  "get_most_recent_prefix node =
     (if node_prefix (fst node) \<noteq> [] then Inr (node_prefix (fst node))
      else case climb node of
        Inl s \<Rightarrow> Inr s
      | Inr node' \<Rightarrow>
          if node_prefix (fst node') \<noteq> [] then Inr (node_prefix (fst node'))
          else (case prev_sibling node' of
                  None \<Rightarrow> Inl AttributeError
                | Some s \<Rightarrow> Inr (node_prefix (rightmost s))))"

section \<open>The docstring extractor\<close>

text \<open>\<open>prepare_docstring\<close>: comment runs, triple-quoted and single-quoted literals.\<close>

definition unmark_line :: "string \<Rightarrow> string" where
  "unmark_line l =
     (let line = strip l in
      lstrip (if startswith line ''#:'' then drop 2 line else drop 1 line))"

definition prepare_docstring :: "string \<Rightarrow> string option" where
  "prepare_docstring s0 =
     (let s = strip s0 in
      if startswith s ''#'' then Some (strip (join_nl (map unmark_line (split_nl s))))
      else if startswith s [DQ, DQ, DQ] \<or> startswith s [SQ, SQ, SQ] then
        Some (strip (dedent_docstring (slice_inner 3 3 s)))
      else if startswith s [DQ] \<or> startswith s [SQ] then
        Some (strip (dedent_docstring (slice_inner 1 1 s)))
      else None)"

datatype doc_type = Statement | Block

text \<open>
  The loop of \<open>get_hashtag_docstring_from_prefix\<close> over the reversed lines of the prefix;
  \<open>lines\<close> is kept in the order the source appends to it.
\<close>

fun hashtag_scan ::
  "string list \<Rightarrow> string list \<Rightarrow> doc_type option \<Rightarrow> string list \<times> doc_type option" where
  "hashtag_scan [] lines dt = (lines, dt)"
| "hashtag_scan (l # ls) lines dt =
     (let line = strip l in
      if lines \<noteq> [] \<and> \<not> startswith line ''#'' then (lines, dt)
      else
        let dt' = (if dt = None \<and> startswith (strip line) ''#:'' then Some Statement
                   else if dt = None \<and> startswith (strip line) ''#'' then Some Block
                   else dt);
            lines' = (if lines \<noteq> [] \<or> line \<noteq> [] then lines @ [line] else lines)
        in hashtag_scan ls lines' dt')"

definition get_hashtag_docstring_from_prefix ::
  "loc \<Rightarrow> error + (string option \<times> doc_type option)" where
  "get_hashtag_docstring_from_prefix node =
     (case get_most_recent_prefix node of
        Inl e \<Rightarrow> Inl e
      | Inr prefix \<Rightarrow>
          (case hashtag_scan (rev (split_nl prefix)) [] None of
             (lines, dt) \<Rightarrow> Inr (prepare_docstring (join_nl (rev lines)), dt)))"

definition get_statement_docstring :: "loc \<Rightarrow> error + string option" where
  "get_statement_docstring node =
     (case get_most_recent_prefix node of
        Inl e \<Rightarrow> Inl e
      | Inr prefix \<Rightarrow>
          let ws = takeWhile isspace (rev prefix) in
          if count_char NL ws = 1 then
            (case get_hashtag_docstring_from_prefix node of
               Inl e \<Rightarrow> Inl e
             | Inr (docstring, dt) \<Rightarrow> if dt = Some Statement then Inr docstring else Inr None)
          else Inr None)"

definition block_docstring_from_prefix :: "loc \<Rightarrow> error + string option" where
  "block_docstring_from_prefix node =
     (case get_hashtag_docstring_from_prefix node of
        Inl e \<Rightarrow> Inl e
      | Inr (docstring, dt) \<Rightarrow> if dt = Some Block then Inr docstring else Inr None)"

text \<open>
  \<open>get_docstring_from_first_node\<close>; the block node is \<open>None\<close> when the caller's \<open>find\<close>
  found none, and then \<open>parent.children\<close> raises.
\<close>

definition get_docstring_from_first_node :: "loc option \<Rightarrow> bool \<Rightarrow> error + string option" where
  "get_docstring_from_first_node parent_node module_level =
     (case parent_node of
        None \<Rightarrow> Inl AttributeError
      | Some p \<Rightarrow>
          (case find_first (\<lambda>x. is_Node (fst x)) (loc_children p) of
             None \<Rightarrow> Inr None
           | Some node \<Rightarrow>
               if node_type (fst node) = syms_simple_stmt then
                 (case index_at (children (fst node)) 0 of
                    Inl e \<Rightarrow> Inl e
                  | Inr c \<Rightarrow>
                      if node_type c = token_STRING then
                        (case node_value c of
                           Inl e \<Rightarrow> Inl e
                         | Inr v \<Rightarrow> Inr (prepare_docstring v))
                      else block_docstring_from_prefix node)
               else block_docstring_from_prefix node))"

section \<open>The sequential scanner\<close>

record 'a ListScanner =
  lst :: "'a list"
  idx :: nat

definition scanner_bool :: "'a ListScanner \<Rightarrow> bool" where
  "scanner_bool s = (idx s < length (lst s))"

definition current :: "'a ListScanner \<Rightarrow> error + 'a" where
  "current s = index_at (lst s) (idx s)"

definition can_advance :: "'a ListScanner \<Rightarrow> bool" where
  "can_advance s = (int (idx s) < int (length (lst s)) - 1)"

text \<open>\<open>advance\<close> moves the index first, also when there is no next element.\<close>

definition advance :: "'a ListScanner \<Rightarrow> bool \<Rightarrow> error + ('a ListScanner \<times> 'a option)" where
  "advance s expect =
     (let s' = s\<lparr>idx := idx s + 1\<rparr> in
      case current s' of
        Inr x \<Rightarrow> Inr (s', Some x)
      | Inl e \<Rightarrow> if expect then Inl e else Inr (s', None))"

text \<open>
  \<open>safe_iter\<close> is a generator. Its local \<open>index\<close> is bound once, when the generator
  starts, to the scanner's index of that moment. What a call of \<open>next\<close> gives is a
  \<open>gen_step\<close>. \<open>safe_iter_head\<close> is the loop test with the \<open>yield\<close>;
  \<open>safe_iter_after_yield\<close> is the code between a \<open>yield\<close> and the next loop test.
\<close>

datatype 'a gen_step = Yield 'a | StopIteration | Raise error

definition safe_iter_head :: "'a ListScanner \<Rightarrow> 'a gen_step" where
  "safe_iter_head s =
     (if scanner_bool s then (case current s of Inr x \<Rightarrow> Yield x | Inl e \<Rightarrow> Raise e)
      else StopIteration)"

definition safe_iter_after_yield ::
  "bool \<Rightarrow> nat \<Rightarrow> 'a ListScanner \<Rightarrow> error + 'a ListScanner" where
  "safe_iter_after_yield auto_advance index s =
     (if auto_advance then (case advance s False of Inl e \<Rightarrow> Inl e | Inr (s', x) \<Rightarrow> Inr s')
      else if idx s = index then Inl RuntimeError
      else Inr s)"

text \<open>One \<open>next\<close> on a generator that has yielded before.\<close>

definition safe_iter_resume ::
  "bool \<Rightarrow> nat \<Rightarrow> 'a ListScanner \<Rightarrow> 'a ListScanner \<times> 'a gen_step" where
  "safe_iter_resume auto_advance index s =
     (case safe_iter_after_yield auto_advance index s of
        Inl e \<Rightarrow> (s, Raise e)
      | Inr s' \<Rightarrow> (s', safe_iter_head s'))"

text \<open>
  A \<open>for\<close> loop over \<open>safe_iter\<close> whose body, at each step, does to the scanner what the
  next function of \<open>steps\<close> does: the elements the loop receives, and how it ends
  (\<open>None\<close>: the steps ran out first).
\<close>

fun safe_iter_steps ::
  "bool \<Rightarrow> nat \<Rightarrow> 'a ListScanner \<Rightarrow> 'a gen_step \<Rightarrow>
   ('a ListScanner \<Rightarrow> 'a ListScanner) list \<Rightarrow> 'a list \<times> 'a gen_step option" where
  "safe_iter_steps auto_advance index s (Yield x) [] = ([x], None)"
| "safe_iter_steps auto_advance index s (Yield x) (body # bodies) =
     (case safe_iter_resume auto_advance index (body s) of
        (s', step) \<Rightarrow>
          (case safe_iter_steps auto_advance index s' step bodies of
             (xs, r) \<Rightarrow> (x # xs, r)))"
| "safe_iter_steps auto_advance index s step bodies = ([], Some step)"

definition safe_iter ::
  "bool \<Rightarrow> 'a ListScanner \<Rightarrow> ('a ListScanner \<Rightarrow> 'a ListScanner) list \<Rightarrow>
   'a list \<times> 'a gen_step option" where
  "safe_iter auto_advance s bodies =
     safe_iter_steps auto_advance (idx s) s (safe_iter_head s) bodies"

section \<open>The reflection tree\<close>

text \<open>
  Modelled from the spec: the module \<open>pydoc_markdown.reflection\<close> (\<open>Location\<close>,
  \<open>Expression\<close>, \<open>Argument\<close>, \<open>Decorator\<close>, \<open>Data\<close>, \<open>Function\<close>, \<open>Class\<close>,
  \<open>Module\<close>) is not among the sources. The fields are the constructor arguments the
  loader passes, in its order. An entity that owns declarations has an ordered sequence
  of them; constructing an entity with a parent appends it to the parent's sequence, and
  \<open>remove\<close> retracts it from there. The sequence stands for the back-reference too: the
  parent of an entity is the entity whose sequence holds it.
\<close>

datatype expression = Expression string

datatype location = Location string "nat option"

datatype argtype = POS | POS_REMAINDER | KW_SEPARATOR | KW_ONLY | KW_REMAINDER

datatype argument = Argument string "expression option" "expression option" argtype

datatype decorator = Decorator string "expression option"

datatype entity =
    Data location string "string option" expression
  | Function location string "string option" bool "decorator list" "argument list"
      "expression option"
  | Class location string "string option" "expression list" "expression option"
      "decorator list option" "entity list"

datatype module = Module location string "string option" "entity list"

section \<open>Source text of nodes\<close>

text \<open>
  \<open>nodes_to_string\<close>: the inner generator always runs with \<open>skip_prefix\<close> true, so the
  prefix is left out exactly at index 0 of each list; \<open>first\<close> says that the head of
  the list is at index 0.
\<close>

fun generator :: "bool \<Rightarrow> tree list \<Rightarrow> string" where
  "generator first [] = []"
| "generator first (Leaf k v p n # cs) =
     (if first then [] else p) @ v @ generator False cs"
| "generator first (Node k ds # cs) =
     (if first then [] else node_prefix (Node k ds)) @ generator True ds @ generator False cs"

definition nodes_to_string :: "tree list \<Rightarrow> string" where
  "nodes_to_string nodes = generator True nodes"

text \<open>\<open>nodes_to_string([node])\<close> where \<open>node\<close> may be \<open>None\<close>: then \<open>node.value\<close> raises.\<close>

definition node_to_string :: "tree option \<Rightarrow> error + string" where
  "node_to_string node =
     (case node of None \<Rightarrow> Inl AttributeError | Some n \<Rightarrow> Inr (nodes_to_string [n]))"

text \<open>\<open>str(node)\<close>.\<close>

fun str_of :: "tree \<Rightarrow> string" where
  "str_of (Leaf k v p n) = p @ v"
| "str_of (Node k cs) = concat (map str_of cs)"

fun join_values :: "tree list \<Rightarrow> error + string" where
  "join_values [] = Inr []"
| "join_values (c # cs) =
     (case node_value c of
        Inl e \<Rightarrow> Inl e
      | Inr v \<Rightarrow> (case join_values cs of Inl e \<Rightarrow> Inl e | Inr w \<Rightarrow> Inr (v @ w)))"

definition name_to_string :: "tree \<Rightarrow> error + string" where
  "name_to_string node =
     (if node_type node = syms_dotted_name then join_values (children node)
      else node_value node)"

definition location_from :: "string \<Rightarrow> tree \<Rightarrow> location" where
  "location_from filename node = Location filename (get_lineno node)"

section \<open>The signature parser\<close>

text \<open>
  The inner \<open>parse_annotated_name\<close> of \<open>parse_argument\<close>. The node is \<open>None\<close> when the
  scanner had run out; every node object is true, so the \<open>RuntimeError\<close> branch of the
  source is never taken: \<open>None.type\<close> raises before.
\<close>

definition parse_annotated_name :: "tree option \<Rightarrow> error + (string \<times> expression option)" where
  "parse_annotated_name node =
     (case node of
        None \<Rightarrow> Inl AttributeError
      | Some n \<Rightarrow>
          if node_type n = syms_tname then
            (let scanner = \<lparr>lst = children n, idx = 0\<rparr> in
             case current scanner of
               Inl e \<Rightarrow> Inl e
             | Inr c \<Rightarrow>
                 (case node_value c of
                    Inl e \<Rightarrow> Inl e
                  | Inr name \<Rightarrow>
                      (case advance scanner False of
                         Inl e \<Rightarrow> Inl e
                       | Inr (s1, None) \<Rightarrow> Inl AttributeError
                       | Inr (s1, Some colon) \<Rightarrow>
                           if node_type colon \<noteq> token_COLON then
                             Inl (AssertionError (TreeMsg (Some n)))
                           else
                             (case advance s1 False of
                                Inl e \<Rightarrow> Inl e
                              | Inr (s2, ann) \<Rightarrow>
                                  (case node_to_string ann of
                                     Inl e \<Rightarrow> Inl e
                                   | Inr a \<Rightarrow> Inr (name, Some (Expression a)))))))
          else
            (case node_value n of
               Inl e \<Rightarrow> Inl e
             | Inr name \<Rightarrow> Inr (name, None)))"

text \<open>\<open>parse_argument\<close>: the scanner is returned as the call leaves it.\<close>

definition parse_argument ::
  "tree option \<Rightarrow> argtype \<Rightarrow> tree ListScanner \<Rightarrow> error + (tree ListScanner \<times> argument)" where
  "parse_argument node argtype scanner =
     (case parse_annotated_name node of
        Inl e \<Rightarrow> Inl e
      | Inr (name, annotation) \<Rightarrow>
          (case advance scanner False of
             Inl e \<Rightarrow> Inl e
           | Inr (s1, n1) \<Rightarrow>
               if (case n1 of None \<Rightarrow> False | Some x \<Rightarrow> node_type x = token_EQUAL) then
                 (case advance s1 False of
                    Inl e \<Rightarrow> Inl e
                  | Inr (s2, n2) \<Rightarrow>
                      (case node_to_string n2 of
                         Inl e \<Rightarrow> Inl e
                       | Inr d \<Rightarrow>
                           (case advance s2 False of
                              Inl e \<Rightarrow> Inl e
                            | Inr (s3, n3) \<Rightarrow>
                                Inr (s3, Argument name annotation (Some (Expression d)) argtype))))
               else Inr (s1, Argument name annotation None argtype)))"

text \<open>
  The body of the loop of \<open>parse_parameters\<close>: the scanner and the active kind after
  the body, and the argument it appended.
\<close>

definition parameters_body ::
  "tree ListScanner \<Rightarrow> argtype \<Rightarrow> error + (tree ListScanner \<times> argtype \<times> argument)" where
  "parameters_body index argtype =
     (case current index of
        Inl e \<Rightarrow> Inl e
      | Inr node \<Rightarrow>
          if node_type node = token_STAR then
            (case advance index False of
               Inl e \<Rightarrow> Inl e
             | Inr (s1, None) \<Rightarrow> Inl AttributeError
             | Inr (s1, Some n1) \<Rightarrow>
                 if node_type n1 = token_COMMA then
                   (case advance s1 False of
                      Inl e \<Rightarrow> Inl e
                    | Inr (s2, n2) \<Rightarrow> Inr (s2, KW_ONLY, Argument [] None None KW_SEPARATOR))
                 else
                   (case parse_argument (Some n1) POS_REMAINDER s1 of
                      Inl e \<Rightarrow> Inl e
                    | Inr (s2, a) \<Rightarrow> Inr (s2, KW_ONLY, a)))
          else if node_type node = token_DOUBLESTAR then
            (case advance index False of
               Inl e \<Rightarrow> Inl e
             | Inr (s1, n1) \<Rightarrow>
                 (case parse_argument n1 KW_REMAINDER s1 of
                    Inl e \<Rightarrow> Inl e
                  | Inr (s2, a) \<Rightarrow> Inr (s2, argtype, a)))
          else
            (case parse_argument (Some node) argtype index of
               Inl e \<Rightarrow> Inl e
             | Inr (s1, a) \<Rightarrow>
                 (case advance s1 False of
                    Inl e \<Rightarrow> Inl e
                  | Inr (s2, n2) \<Rightarrow> Inr (s2, argtype, a))))"

lemma advance_idx:
  "advance s expect = Inr (s', x) \<Longrightarrow> idx s' = idx s + 1 \<and> lst s' = lst s"
  by (auto simp: advance_def Let_def split: sum.splits if_splits)

lemma parse_argument_idx:
  "parse_argument node argtype s = Inr (s', a) \<Longrightarrow> idx s < idx s' \<and> lst s' = lst s"
  by (auto simp: parse_argument_def split: sum.splits prod.splits if_splits option.splits
           dest!: advance_idx)

lemma parameters_body_idx:
  "parameters_body s argtype = Inr (s', argtype', a) \<Longrightarrow> idx s < idx s' \<and> lst s' = lst s"
  by (auto simp: parameters_body_def
           split: sum.splits prod.splits if_splits option.splits
           dest!: advance_idx parse_argument_idx)

text \<open>
  The \<open>for\<close> loop over \<open>index.safe_iter(auto_advance=False)\<close>; \<open>index0\<close> is the local
  \<open>index\<close> of the generator.
\<close>

function parameters_loop ::
  "nat \<Rightarrow> tree ListScanner \<Rightarrow> argtype \<Rightarrow> error + argument list" where
  "parameters_loop index0 s argtype =
     (case safe_iter_head s of
        StopIteration \<Rightarrow> Inr []
      | Raise e \<Rightarrow> Inl e
      | Yield node \<Rightarrow>
          (case parameters_body s argtype of
             Inl e \<Rightarrow> Inl e
           | Inr (s1, argtype1, a) \<Rightarrow>
               (case safe_iter_after_yield False index0 s1 of
                  Inl e \<Rightarrow> Inl e
                | Inr s2 \<Rightarrow>
                    (case parameters_loop index0 s2 argtype1 of
                       Inl e \<Rightarrow> Inl e
                     | Inr result \<Rightarrow> Inr (a # result)))))"
  by pat_completeness auto
termination
proof (relation "measure (\<lambda>(index0, s, argtype). length (lst s) - idx s)")
qed (auto simp: safe_iter_head_def scanner_bool_def safe_iter_after_yield_def
      split: if_splits dest!: parameters_body_idx intro: diff_less_mono2)

text \<open>\<open>list.index\<close> of the element \<open>find\<close> returned: the first position where \<open>P\<close> holds.\<close>

definition index_of_first :: "('a \<Rightarrow> bool) \<Rightarrow> 'a list \<Rightarrow> nat" where
  "index_of_first P xs = length (takeWhile (\<lambda>x. \<not> P x) xs)"

definition parse_parameters :: "tree option \<Rightarrow> error + argument list" where
  "parse_parameters parameters =
     (case parameters of
        None \<Rightarrow> Inl AttributeError
      | Some p \<Rightarrow>
          if node_type p \<noteq> syms_parameters then Inl (AssertionError (KindMsg (node_type p)))
          else
            (case find_first (\<lambda>x. node_type x = syms_typedargslist) (children p) of
               None \<Rightarrow>
                 (case find_first (\<lambda>x. node_type x = syms_tname) (children p) of
                    Some tname \<Rightarrow>
                      (let scanner = \<lparr>lst = children p,
                             idx = index_of_first (\<lambda>x. node_type x = syms_tname) (children p)\<rparr> in
                       case parse_argument (Some tname) POS scanner of
                         Inl e \<Rightarrow> Inl e
                       | Inr (s1, a) \<Rightarrow> Inr [a])
                  | None \<Rightarrow>
                      if length (children p) \<noteq> 2 \<and> length (children p) \<noteq> 3 then
                        Inl (AssertionError (TreesMsg (children p)))
                      else if length (children p) = 3 then
                        (case node_value (children p ! 1) of
                           Inl e \<Rightarrow> Inl e
                         | Inr v \<Rightarrow> Inr [Argument v None None POS])
                      else Inr [])
             | Some arglist \<Rightarrow>
                 (let index = \<lparr>lst = children arglist, idx = 0\<rparr> in
                  parameters_loop (idx index) index POS)))"

section \<open>The declaration parser\<close>

text \<open>
  The methods below take \<open>filename\<close>, the value of \<open>self.filename\<close> that \<open>parse\<close> has
  set. A method that constructs entities returns the entities it has constructed, in
  order, for the caller to append to the parent's sequence, and the value the source
  returns.
\<close>

text \<open>
  The loop of \<open>parse_statement\<close> over \<open>stmt.children\<close>: a leaf whose value is \<open>=\<close> closes
  the current run of nodes as a name.
\<close>

fun is_equal_sign :: "tree \<Rightarrow> bool" where
  "is_equal_sign (Leaf k v p n) = (v = ''='')"
| "is_equal_sign (Node k cs) = False"

fun statement_scan ::
  "tree list \<Rightarrow> bool \<Rightarrow> tree list list \<Rightarrow> tree list \<Rightarrow> bool \<times> tree list list \<times> tree list" where
  "statement_scan [] is_assignment names expression = (is_assignment, names, expression)"
| "statement_scan (child # cs) is_assignment names expression =
     (if is_equal_sign child then statement_scan cs True (names @ [expression]) []
      else statement_scan cs is_assignment names (expression @ [child]))"

definition parse_statement :: "string \<Rightarrow> loc \<Rightarrow> error + (entity list \<times> entity option)" where
  "parse_statement filename stmt =
     (case statement_scan (children (fst stmt)) False [] [] of
        (is_assignment, names, expression) \<Rightarrow>
          if is_assignment then
            (case get_statement_docstring stmt of
               Inl e \<Rightarrow> Inl e
             | Inr docstring \<Rightarrow>
                 (let expr = Expression (nodes_to_string expression) in
                  if names = [] then Inl (AssertionError NoMsg)
                  else
                    (let datas = map (\<lambda>name. Data (location_from filename (fst stmt))
                                        (nodes_to_string name) docstring expr) names
                     in Inr (datas, Some (last datas)))))
          else Inr ([], None))"

definition parse_decorator :: "tree \<Rightarrow> error + decorator" where
  "parse_decorator node =
     (case index_at (children node) 0 of
        Inl e \<Rightarrow> Inl e
      | Inr c0 \<Rightarrow>
          (case node_value c0 of
             Inl e \<Rightarrow> Inl e
           | Inr v \<Rightarrow>
               if v \<noteq> ''@'' then Inl (AssertionError NoMsg)
               else
                 (case index_at (children node) 1 of
                    Inl e \<Rightarrow> Inl e
                  | Inr c1 \<Rightarrow>
                      (case name_to_string c1 of
                         Inl e \<Rightarrow> Inl e
                       | Inr name \<Rightarrow>
                           (let call_expr = strip (nodes_to_string (drop 2 (children node))) in
                            Inr (Decorator name
                                  (if call_expr \<noteq> [] then Some (Expression call_expr)
                                   else None)))))))"

text \<open>The loop of \<open>parse_declaration\<close> over the decorator nodes.\<close>

fun parse_decorators :: "tree list \<Rightarrow> error + decorator list" where
  "parse_decorators [] = Inr []"
| "parse_decorators (child # cs) =
     (if node_type child \<noteq> syms_decorator then
        Inl (AssertionError (KindMsg (node_type child)))
      else
        (case parse_decorator child of
           Inl e \<Rightarrow> Inl e
         | Inr d \<Rightarrow>
             (case parse_decorators cs of
                Inl e \<Rightarrow> Inl e
              | Inr ds \<Rightarrow> Inr (d # ds))))"

text \<open>
  \<open>get_return_annotation\<close>: \<open>next_sibling\<close> of the first \<open>->\<close> child is the child after it,
  or \<open>None\<close>.
\<close>

definition get_return_annotation :: "tree \<Rightarrow> error + expression option" where
  "get_return_annotation node =
     (case dropWhile (\<lambda>x. node_type x \<noteq> token_RARROW) (children node) of
        [] \<Rightarrow> Inr None
      | rarrow # rest \<Rightarrow>
          (case node_to_string (case rest of [] \<Rightarrow> None | n # ns \<Rightarrow> Some n) of
             Inl e \<Rightarrow> Inl e
           | Inr a \<Rightarrow> Inr (Some (Expression a))))"

definition parse_funcdef ::
  "string \<Rightarrow> loc \<Rightarrow> bool \<Rightarrow> decorator list option \<Rightarrow> error + (entity list \<times> entity option)" where
  "parse_funcdef filename node is_async decorators =
     (let parameters = find_first (\<lambda>x. node_type x = syms_parameters) (children (fst node));
          body = (case find_first (\<lambda>x. node_type (fst x) = syms_suite) (loc_children node) of
                    Some b \<Rightarrow> Some b
                  | None \<Rightarrow>
                      find_first (\<lambda>x. node_type (fst x) = syms_simple_stmt) (loc_children node))
      in
      case index_at (children (fst node)) 1 of
        Inl e \<Rightarrow> Inl e
      | Inr c1 \<Rightarrow>
          (case node_value c1 of
             Inl e \<Rightarrow> Inl e
           | Inr name \<Rightarrow>
               (case get_docstring_from_first_node body False of
                  Inl e \<Rightarrow> Inl e
                | Inr docstring \<Rightarrow>
                    (case parse_parameters parameters of
                       Inl e \<Rightarrow> Inl e
                     | Inr args \<Rightarrow>
                         (case get_return_annotation (fst node) of
                            Inl e \<Rightarrow> Inl e
                          | Inr return \<Rightarrow>
                              (let f = Function (location_from filename (fst node)) name
                                         docstring is_async
                                         (case decorators of None \<Rightarrow> [] | Some ds \<Rightarrow> ds)
                                         args return
                               in Inr ([f], Some f)))))))"

text \<open>The class arguments: \<open>classargs.children[::2]\<close>, the bases and the metaclass keyword.\<close>

fun every_second :: "'a list \<Rightarrow> 'a list" where
  "every_second [] = []"
| "every_second [x] = [x]"
| "every_second (x # y # xs) = x # every_second xs"

fun class_arguments ::
  "tree list \<Rightarrow> expression list \<Rightarrow> expression option \<Rightarrow>
   error + (expression list \<times> expression option)" where
  "class_arguments [] bases metaclass = Inr (bases, metaclass)"
| "class_arguments (child # cs) bases metaclass =
     (if node_type child = syms_argument then
        (case index_at (children child) 0 of
           Inl e \<Rightarrow> Inl e
         | Inr c0 \<Rightarrow>
             (case node_value c0 of
                Inl e \<Rightarrow> Inl e
              | Inr key \<Rightarrow>
                  (let v = nodes_to_string (drop 2 (children child)) in
                   if key = ''metaclass'' then class_arguments cs bases (Some (Expression v))
                   else class_arguments cs bases metaclass)))
      else class_arguments cs (bases @ [Expression (str_of child)]) metaclass)"

text \<open>\<open>isinstance(member, Data) and member.name == '__metaclass__'\<close>, with \<open>member.expr\<close>.\<close>

fun metaclass_data :: "entity option \<Rightarrow> expression option" where
  "metaclass_data (Some (Data l n d e)) = (if n = ''__metaclass__'' then Some e else None)"
| "metaclass_data _ = None"

lemma find_first_in_set:
  "find_first P xs = Some x \<Longrightarrow> x \<in> set xs"
  by (induction xs) (auto split: if_splits)

lemma fst_locate_from:
  "map fst (locate_from ls k ctx cs) = cs"
  by (induction cs arbitrary: ls) auto

lemma fst_loc_children:
  "map fst (loc_children n) = children (fst n)"
  by (cases n, cases "fst n") (auto simp: fst_locate_from)

lemma size_child:
  "c \<in> set (children t) \<Longrightarrow> size c < size t"
  by (cases t) (auto simp: less_Suc_eq_le dest: size_list_estimation'[where f = size, OF _ order_refl])

lemma size_loc_child:
  "c \<in> set (loc_children n) \<Longrightarrow> size (fst c) < size (fst n)"
proof -
  assume "c \<in> set (loc_children n)"
  then have "fst c \<in> set (map fst (loc_children n))" by (simp del: fst_loc_children)
  then show ?thesis by (simp add: fst_loc_children size_child)
qed

lemma index_at_in_set: "index_at xs i = Inr x \<Longrightarrow> x \<in> set xs"
  by (auto simp: index_at_def split: if_splits)

lemma size_loc_children_le:
  "size_list (\<lambda>x. size (fst x)) (loc_children n) \<le> size (fst n)"
proof -
  have "size_list (\<lambda>x. size (fst x)) (loc_children n)
      = size_list size (map fst (loc_children n))"
    by (simp only: size_list_map comp_def)
  also have "\<dots> = size_list size (children (fst n))"
    by (simp only: fst_loc_children)
  also have "\<dots> \<le> size (fst n)"
    by (cases "fst n") auto
  finally show ?thesis .
qed

text \<open>
  \<open>parse_declaration\<close> and \<open>parse_classdef\<close>, with the loop of \<open>parse_classdef\<close> over
  \<open>suite.children\<close> as \<open>class_members\<close>: the loop carries the local variable
  \<open>metaclass\<close> and the member sequence of the class under construction.
\<close>

function parse_declaration ::
    "string \<Rightarrow> loc \<Rightarrow> decorator list option \<Rightarrow> error + (entity list \<times> entity option)"
  and parse_classdef ::
    "string \<Rightarrow> loc \<Rightarrow> decorator list option \<Rightarrow> error + (entity list \<times> entity option)"
  and class_members ::
    "string \<Rightarrow> loc list \<Rightarrow> expression option \<Rightarrow> entity list \<Rightarrow>
     error + (expression option \<times> entity list)"
where
  "parse_declaration filename node decorators =
     (if node_type (fst node) = syms_simple_stmt then
        (if decorators \<noteq> None \<and> decorators \<noteq> Some [] then Inl (AssertionError NoMsg)
         else
           (case index_at (loc_children node) 0 of
              Inl e \<Rightarrow> Inl e
            | Inr stmt \<Rightarrow>
                if node_type (fst stmt) = syms_import_name
                   \<or> node_type (fst stmt) = syms_import_from then Inr ([], None)
                else if node_type (fst stmt) = syms_expr_stmt then parse_statement filename stmt
                else Inr ([], None)))
      else if node_type (fst node) = syms_funcdef then
        parse_funcdef filename node False decorators
      else if node_type (fst node) = syms_classdef then
        parse_classdef filename node decorators
      else if node_type (fst node) = syms_async_stmt
              \<or> node_type (fst node) = syms_async_funcdef then
        (case index_at (loc_children node) 1 of
           Inl e \<Rightarrow> Inl e
         | Inr child \<Rightarrow>
             if node_type (fst child) = syms_funcdef then
               parse_funcdef filename child True decorators
             else Inr ([], None))
      else if node_type (fst node) = syms_decorated then
        (if length (children (fst node)) \<noteq> 2 then Inl (AssertionError NoMsg)
         else
           (case index_at (loc_children node) 0 of
              Inl e \<Rightarrow> Inl e
            | Inr c0 \<Rightarrow>
                (case (if node_type (fst c0) = syms_decorator then Inr [fst c0]
                       else if node_type (fst c0) = syms_decorators then Inr (children (fst c0))
                       else Inl (AssertionError (KindMsg (node_type (fst c0))))) of
                   Inl e \<Rightarrow> Inl e
                 | Inr decorator_nodes \<Rightarrow>
                     (case parse_decorators decorator_nodes of
                        Inl e \<Rightarrow> Inl e
                      | Inr ds \<Rightarrow>
                          (case index_at (loc_children node) 1 of
                             Inl e \<Rightarrow> Inl e
                           | Inr c1 \<Rightarrow> parse_declaration filename c1 (Some ds))))))
      else Inr ([], None))"
| "parse_classdef filename node decorators =
     (case index_at (children (fst node)) 1 of
        Inl e \<Rightarrow> Inl e
      | Inr c1 \<Rightarrow>
          (case node_value c1 of
             Inl e \<Rightarrow> Inl e
           | Inr name \<Rightarrow>
               (case (case find_first (\<lambda>x. node_type x = syms_arglist) (children (fst node)) of
                        None \<Rightarrow> Inr ([], None)
                      | Some classargs \<Rightarrow>
                          class_arguments (every_second (children classargs)) [] None) of
                  Inl e \<Rightarrow> Inl e
                | Inr (bases, metaclass) \<Rightarrow>
                    (let suite = find_first (\<lambda>x. node_type (fst x) = syms_suite)
                                   (loc_children node) in
                     case get_docstring_from_first_node suite False of
                       Inl e \<Rightarrow> Inl e
                     | Inr docstring \<Rightarrow>
                         (case suite of
                            None \<Rightarrow> Inl AttributeError
                          | Some su \<Rightarrow>
                              (case class_members filename (loc_children su) metaclass [] of
                                 Inl e \<Rightarrow> Inl e
                               | Inr (metaclass', members) \<Rightarrow>
                                   (let class = Class (location_from filename (fst node)) name
                                                  docstring bases metaclass decorators members
                                    in Inr ([class], Some class))))))))"
| "class_members filename [] metaclass members = Inr (metaclass, members)"
| "class_members filename (child # cs) metaclass members =
     (if is_Node (fst child) then
        (case parse_declaration filename child None of
           Inl e \<Rightarrow> Inl e
         | Inr (created, member) \<Rightarrow>
             if metaclass = None \<and> metaclass_data member \<noteq> None then
               class_members filename cs (metaclass_data member) (butlast (members @ created))
             else class_members filename cs metaclass (members @ created))
      else class_members filename cs metaclass members)"
  by pat_completeness auto
termination
proof (relation "measure (\<lambda>x. case x of
      Inl (filename, node, decorators) \<Rightarrow> 2 * size (fst node) + 1
    | Inr (Inl (filename, node, decorators)) \<Rightarrow> 2 * size (fst node)
    | Inr (Inr (filename, nodes, metaclass, members)) \<Rightarrow>
        2 * size_list (\<lambda>x. size (fst x)) nodes + 1)", goal_cases)
  case 1
  show ?case by simp
next
  case 2
  show ?case by simp
next
  case (3 filename node decorators c0 nodes ds c1)
  then show ?case by (auto dest!: index_at_in_set size_loc_child)
next
  case (4 filename node decorators c1 name x bases metaclass suite docstring su)
  from 4 have "su \<in> set (loc_children node)"
    by (auto dest: find_first_in_set[OF sym])
  then have "size (fst su) < size (fst node)" by (rule size_loc_child)
  with size_loc_children_le[of su] show ?case by simp
next
  case 5
  then show ?case by simp
next
  case 6
  then show ?case by simp
next
  case 7
  then show ?case by simp
next
  case 8
  then show ?case by simp
qed

subsection \<open>The module\<close>

text \<open>
  \<open>os.path.basename\<close> and the root of \<open>os.path.splitext\<close>, as \<open>posixpath\<close> defines them:
  the extension starts at the last dot of the last path component, unless only dots
  come before it there.
\<close>

definition rfind :: "char \<Rightarrow> string \<Rightarrow> int" where
  "rfind c s =
     (if c \<in> set s then int (length s) - 1 - int (length (takeWhile (\<lambda>x. x \<noteq> c) (rev s)))
      else - 1)"

definition basename :: "string \<Rightarrow> string" where
  "basename p = drop (nat (rfind CHR ''/'' p + 1)) p"

definition splitext_root :: "string \<Rightarrow> string" where
  "splitext_root p =
     (let sepIndex = rfind CHR ''/'' p; dotIndex = rfind CHR ''.'' p in
      if dotIndex > sepIndex
         \<and> list_ex (\<lambda>i. p ! i \<noteq> CHR ''.'') [nat (sepIndex + 1) ..< nat dotIndex]
      then take (nat dotIndex) p
      else p)"

text \<open>The loop of \<open>parse\<close> over \<open>ast.children\<close>: the members of the module, in order.\<close>

fun module_members :: "string \<Rightarrow> loc list \<Rightarrow> error + entity list" where
  "module_members filename [] = Inr []"
| "module_members filename (node # nodes) =
     (case parse_declaration filename node None of
        Inl e \<Rightarrow> Inl e
      | Inr (created, member) \<Rightarrow>
          (case module_members filename nodes of
             Inl e \<Rightarrow> Inl e
           | Inr members \<Rightarrow> Inr (created @ members)))"

text \<open>
  The only state of a \<open>Parser\<close> is its attribute \<open>filename\<close>, absent (\<open>None\<close>) on a new
  instance. \<open>parse\<close> sets it first; it returns the parser as it leaves it and the module
  or the exception.
\<close>

record Parser =
  filename :: "string option"

definition parse ::
  "Parser \<Rightarrow> tree \<Rightarrow> string \<Rightarrow> string option \<Rightarrow> Parser \<times> (error + module)" where
  "parse self ast file module_name =
     (let self' = self\<lparr>filename := Some file\<rparr>;
          name = (case module_name of
                    None \<Rightarrow> splitext_root (basename file)
                  | Some n \<Rightarrow> n)
      in
      (self',
       case (if children ast \<noteq> [] then get_docstring_from_first_node (Some (ast, [])) True
             else Inr None) of
         Inl e \<Rightarrow> Inl e
       | Inr docstring \<Rightarrow>
           (case module_members file (loc_children (ast, [])) of
              Inl e \<Rightarrow> Inl e
            | Inr members \<Rightarrow>
                Inr (Module (location_from file ast) name docstring members))))"

section \<open>Properties of the trivia resolver\<close>

text \<open>
  The resolver as the specification words it: the node's own trivia if it has any; at a
  first child without trivia, what the parent gives; at the root, the empty string; at a
  node with a previous sibling, the trivia held by the right-most descendant of that
  sibling.
\<close>

fun trivia_spec :: "tree \<Rightarrow> crumb list \<Rightarrow> string" where
  "trivia_spec t [] = node_prefix t"
| "trivia_spec t ((l # ls, k, rs) # ctx) =
     (if node_prefix t \<noteq> [] then node_prefix t else node_prefix (rightmost l))"
| "trivia_spec t (([], k, rs) # ctx) =
     (if node_prefix t \<noteq> [] then node_prefix t else trivia_spec (Node k (t # rs)) ctx)"

lemma climb_root: "climb (t, []) = (if node_prefix t = [] then Inl [] else Inr (t, []))"
  by simp

lemma climb_prev: "climb (t, (l # ls, k, rs) # ctx) = Inr (t, (l # ls, k, rs) # ctx)"
  by simp

lemma climb_first:
  "climb (t, ([], k, rs) # ctx) =
     (if node_prefix t = [] then climb (Node k (t # rs), ctx) else Inr (t, ([], k, rs) # ctx))"
  by (subst climb.simps) simp

declare climb.simps [simp del]

lemma get_most_recent_prefix_first:
  "node_prefix t = [] \<Longrightarrow>
     get_most_recent_prefix (t, ([], k, rs) # ctx) = get_most_recent_prefix (Node k (t # rs), ctx)"
  by (simp add: get_most_recent_prefix_def climb_first)

lemma get_most_recent_prefix_trivia:
  "get_most_recent_prefix (t, ctx) = Inr (trivia_spec t ctx)"
proof (induction t ctx rule: trivia_spec.induct)
  case (1 t)
  show ?case by (simp add: get_most_recent_prefix_def climb_root)
next
  case (2 t l ls k rs ctx)
  show ?case by (simp add: get_most_recent_prefix_def climb_prev)
next
  case (3 t k rs ctx)
  show ?case
  proof (cases "node_prefix t = []")
    case True
    with 3 show ?thesis by (simp add: get_most_recent_prefix_first)
  next
    case False
    then show ?thesis by (simp add: get_most_recent_prefix_def)
  qed
qed

text \<open>
  C7. For every node of every tree, \<open>get_most_recent_prefix\<close> returns (it never raises)
  what the specification describes: the node's own prefix if it is not empty; otherwise,
  climbing through first children, the empty string when the root is reached, and, at the
  first node on the way that has a previous sibling, the prefix of the right-most
  descendant of that sibling; a non-empty prefix met while climbing is returned.
\<close>

theorem get_most_recent_prefix_spec:
  "get_most_recent_prefix (t, ctx) = Inr (trivia_spec t ctx)
   \<and> trivia_spec t ctx =
       (if node_prefix t \<noteq> [] then node_prefix t
        else case ctx of
               [] \<Rightarrow> []
             | (l # ls, k, rs) # ctx' \<Rightarrow> node_prefix (rightmost l)
             | ([], k, rs) # ctx' \<Rightarrow> trivia_spec (Node k (t # rs)) ctx')"
proof
  show "get_most_recent_prefix (t, ctx) = Inr (trivia_spec t ctx)"
    by (rule get_most_recent_prefix_trivia)
next
  show "trivia_spec t ctx =
       (if node_prefix t \<noteq> [] then node_prefix t
        else case ctx of
               [] \<Rightarrow> []
             | (l # ls, k, rs) # ctx' \<Rightarrow> node_prefix (rightmost l)
             | ([], k, rs) # ctx' \<Rightarrow> trivia_spec (Node k (t # rs)) ctx')"
    by (cases "(t, ctx)" rule: trivia_spec.cases) auto
qed

text \<open>
  The second statement of a file \<open>a = 1  # one\<close>, \<open>b = 2\<close>: the expression statement has no
  prefix and is a first child, its parent has a previous sibling, whose last leaf holds
  the comment.
\<close>

theorem get_most_recent_prefix_spec_witness:
  "get_most_recent_prefix
     (Node syms_expr_stmt
        [Leaf (other_kind 1) ''b'' [] 2, Leaf token_EQUAL ''='' '' '' 2,
         Leaf (other_kind 2) ''2'' '' '' 2],
      [([], syms_simple_stmt, [Leaf (other_kind 4) [NL] [] 2]),
       ([Node syms_simple_stmt
           [Node syms_expr_stmt
              [Leaf (other_kind 1) ''a'' [] 1, Leaf token_EQUAL ''='' '' '' 1,
               Leaf (other_kind 2) ''1'' '' '' 1],
            Leaf (other_kind 4) [NL] ''  # one'' 1]],
        other_kind 256, [Leaf (other_kind 0) [] [] 3])])
   = Inr ''  # one''"
  using get_most_recent_prefix_spec
    [of "Node syms_expr_stmt
        [Leaf (other_kind 1) ''b'' [] 2, Leaf token_EQUAL ''='' '' '' 2,
         Leaf (other_kind 2) ''2'' '' '' 2]"
        "[([], syms_simple_stmt, [Leaf (other_kind 4) [NL] [] 2]),
       ([Node syms_simple_stmt
           [Node syms_expr_stmt
              [Leaf (other_kind 1) ''a'' [] 1, Leaf token_EQUAL ''='' '' '' 1,
               Leaf (other_kind 2) ''1'' '' '' 1],
            Leaf (other_kind 4) [NL] ''  # one'' 1]],
        other_kind 256, [Leaf (other_kind 0) [] [] 3])]"]
  by simp

section \<open>Properties of the docstring extractor\<close>

subsection \<open>Facts about strip, split and join\<close>

definition stripped :: "string \<Rightarrow> bool" where
  "stripped s = (s = [] \<or> (\<not> isspace (hd s) \<and> \<not> isspace (last s)))"

lemma rstrip_last: "rstrip s \<noteq> [] \<Longrightarrow> \<not> isspace (last (rstrip s))"
  using hd_dropWhile[of isspace "rev s"] by (simp add: rstrip_def last_rev)

lemma lstrip_hd: "lstrip s \<noteq> [] \<Longrightarrow> \<not> isspace (hd (lstrip s))"
  by (simp add: lstrip_def hd_dropWhile)

lemma lstrip_last: "lstrip s \<noteq> [] \<Longrightarrow> last (lstrip s) = last s"
  by (induction s) (auto simp: lstrip_def)

lemma stripped_strip: "stripped (strip s)"
proof (cases "strip s = []")
  case True
  then show ?thesis by (simp add: stripped_def)
next
  case False
  then have ne: "lstrip (rstrip s) \<noteq> []" by (simp add: strip_def)
  then have "rstrip s \<noteq> []" by (auto simp: lstrip_def)
  then have "\<not> isspace (last (rstrip s))" by (rule rstrip_last)
  with ne have "\<not> isspace (last (strip s))" by (simp add: strip_def lstrip_last)
  moreover from ne have "\<not> isspace (hd (strip s))" by (simp add: strip_def lstrip_hd)
  ultimately show ?thesis by (simp add: stripped_def)
qed

lemma lstrip_id: "s = [] \<or> \<not> isspace (hd s) \<Longrightarrow> lstrip s = s"
  by (cases s) (auto simp: lstrip_def)

lemma rstrip_id: "s = [] \<or> \<not> isspace (last s) \<Longrightarrow> rstrip s = s"
proof (cases "s = []")
  case True
  then show ?thesis by (simp add: rstrip_def)
next
  case False
  assume "s = [] \<or> \<not> isspace (last s)"
  with False have "\<not> isspace (hd (rev s))" by (simp add: hd_rev)
  with False have "dropWhile isspace (rev s) = rev s" by (cases "rev s") auto
  then show ?thesis by (simp add: rstrip_def)
qed

lemma strip_id: "stripped s \<Longrightarrow> strip s = s"
  by (auto simp: stripped_def strip_def lstrip_id rstrip_id)

lemma strip_strip: "strip (strip s) = strip s"
  by (rule strip_id) (rule stripped_strip)

lemma set_strip: "set (strip s) \<subseteq> set s"
proof -
  have "set (strip s) \<subseteq> set (rstrip s)"
    by (auto simp: strip_def lstrip_def dest: set_dropWhileD)
  also have "\<dots> \<subseteq> set s"
    by (auto simp: rstrip_def dest: set_dropWhileD)
  finally show ?thesis .
qed



lemma split_on_nonempty: "split_on c s \<noteq> []"
  by (induction s) (auto split: list.splits)

lemma split_on_no_sep: "l \<in> set (split_on c s) \<Longrightarrow> c \<notin> set l"
  by (induction s arbitrary: l) (auto split: list.splits if_splits)

lemma split_on_append:
  "c \<notin> set x \<Longrightarrow> split_on c (x @ c # rest) = x # split_on c rest"
  by (induction x) auto

lemma split_on_single: "c \<notin> set x \<Longrightarrow> split_on c x = [x]"
  by (induction x) auto

lemma split_on_join:
  "xs \<noteq> [] \<Longrightarrow> (\<And>x. x \<in> set xs \<Longrightarrow> c \<notin> set x) \<Longrightarrow> split_on c (join [c] xs) = xs"
proof (induction "[c]" xs rule: join.induct)
  case 1
  then show ?case by simp
next
  case (2 x)
  then show ?case by (simp add: split_on_single)
next
  case (3 x y ys)
  then show ?case by (simp add: split_on_append)
qed

lemma slice_inner_mid: "slice_inner (length q) (length q) (q @ body @ q) = body"
  by (simp add: slice_inner_def)

text \<open>
  C8. For every string literal that, stripped, is a body between two triple quotes (of
  either quote character), \<open>prepare_docstring\<close> returns the stripped first line of the body
  joined by newlines with the lines of the dedented rest of the body (\<open>textwrap.dedent\<close>
  of the remaining lines), the whole stripped of surrounding whitespace.
\<close>

theorem prepare_docstring_triple_quoted:
  assumes lit: "strip s = q @ body @ q"
    and q: "q = [DQ, DQ, DQ] \<or> q = [SQ, SQ, SQ]"
    and ls: "split_nl body = first # rest"
  shows "prepare_docstring s =
     Some (strip (join_nl (strip first # split_nl (textwrap_dedent (join_nl rest)))))"
proof -
  from q have len: "length q = 3" by auto
  from q have nohash: "\<not> startswith (q @ body @ q) ''#''"
    by (auto simp: startswith_def DQ_def SQ_def)
  from q have triple:
    "startswith (q @ body @ q) [DQ, DQ, DQ] \<or> startswith (q @ body @ q) [SQ, SQ, SQ]"
    by (auto simp: startswith_def)
  have inner: "slice_inner 3 3 (q @ body @ q) = body"
    using slice_inner_mid[of q body] len by simp
  have "dedent_docstring body =
      strip (join_nl (strip first # split_nl (textwrap_dedent (join_nl rest))))"
    by (simp add: dedent_docstring_def ls)
  with nohash triple inner show ?thesis
    by (simp add: prepare_docstring_def lit strip_strip Let_def)
qed

text \<open>
  A docstring whose first line has text and whose next lines are indented by four and
  six blanks: the common four blanks go, the closing line disappears.
\<close>

theorem prepare_docstring_triple_quoted_witness:
  "strip ([DQ, DQ, DQ] @ ''Hello\<newline>    world\<newline>      more\<newline>    '' @ [DQ, DQ, DQ])
     = [DQ, DQ, DQ] @ ''Hello\<newline>    world\<newline>      more\<newline>    '' @ [DQ, DQ, DQ]
   \<and> split_nl ''Hello\<newline>    world\<newline>      more\<newline>    ''
       = ''Hello'' # [''    world'', ''      more'', ''    '']
   \<and> prepare_docstring
        ([DQ, DQ, DQ] @ ''Hello\<newline>    world\<newline>      more\<newline>    '' @ [DQ, DQ, DQ])
       = Some ''Hello\<newline>world\<newline>  more''"
proof -
  have a: "strip ([DQ, DQ, DQ] @ ''Hello\<newline>    world\<newline>      more\<newline>    '' @ [DQ, DQ, DQ])
     = [DQ, DQ, DQ] @ ''Hello\<newline>    world\<newline>      more\<newline>    '' @ [DQ, DQ, DQ]"
    by code_simp
  have b: "split_nl ''Hello\<newline>    world\<newline>      more\<newline>    ''
       = ''Hello'' # [''    world'', ''      more'', ''    '']"
    by code_simp
  have c: "strip (join_nl (strip ''Hello'' #
             split_nl (textwrap_dedent (join_nl [''    world'', ''      more'', ''    '']))))
      = ''Hello\<newline>world\<newline>  more''"
    by code_simp
  from prepare_docstring_triple_quoted[OF a _ b] a b c show ?thesis by simp
qed




subsection \<open>Comment runs\<close>

text \<open>
  The comment run before a statement, as the specification describes it: the lines of the
  prefix are read from the last to the first, each stripped; empty lines are passed over;
  the first line that is not empty starts the run, and the run goes on as long as the
  lines start with \<open>#\<close>. \<open>scan_lines\<close> is the run in the order it is read,
  \<open>comment_run\<close> in the order of the source. The run is classified by the first
  comment line read, the one nearest to the statement: \<open>#:\<close> makes it a statement
  docstring, \<open>#\<close> alone a block docstring. \<open>remove_marker\<close> takes the marker and the
  blanks after it from a line.
\<close>

definition is_comment :: "string \<Rightarrow> bool" where
  "is_comment l = startswith l ''#''"

definition scan_lines :: "string list \<Rightarrow> string list" where
  "scan_lines ls =
     (case dropWhile (\<lambda>l. l = []) (map strip ls) of
        [] \<Rightarrow> []
      | l0 # rest \<Rightarrow> l0 # takeWhile is_comment rest)"

definition classify :: "string list \<Rightarrow> doc_type option" where
  "classify lines =
     (case find_first is_comment lines of
        None \<Rightarrow> None
      | Some l \<Rightarrow> if startswith l ''#:'' then Some Statement else Some Block)"

definition comment_run :: "string \<Rightarrow> string list" where
  "comment_run prefix = rev (scan_lines (rev (split_nl prefix)))"

definition run_doc_type :: "string list \<Rightarrow> doc_type option" where
  "run_doc_type run = classify (rev run)"

definition remove_marker :: "string \<Rightarrow> string" where
  "remove_marker l = lstrip (if startswith l ''#:'' then drop 2 l else drop 1 l)"

lemma strip_Nil: "strip [] = []"
  by (simp add: strip_def lstrip_def rstrip_def)

lemma find_first_append:
  "find_first P (xs @ ys) = (case find_first P xs of Some x \<Rightarrow> Some x | None \<Rightarrow> find_first P ys)"
  by (induction xs) auto

lemma marker_is_comment: "startswith l ''#:'' \<Longrightarrow> is_comment l"
  by (cases l) (auto simp: startswith_def is_comment_def)

lemma classify_snoc:
  "is_comment line \<Longrightarrow>
   classify (lines @ [line]) =
     (if classify lines = None
      then (if startswith line ''#:'' then Some Statement else Some Block)
      else classify lines)"
  by (auto simp: classify_def find_first_append split: option.splits)

lemma hashtag_scan_run:
  "lines \<noteq> [] \<Longrightarrow> dt = classify lines \<Longrightarrow>
   hashtag_scan ls lines dt =
     (lines @ takeWhile is_comment (map strip ls),
      classify (lines @ takeWhile is_comment (map strip ls)))"
proof (induction ls arbitrary: lines dt)
  case Nil
  then show ?case by simp
next
  case (Cons l ls)
  show ?case
  proof (cases "is_comment (strip l)")
    case False
    with Cons.prems show ?thesis by (simp add: is_comment_def)
  next
    case True
    let ?dt = "if dt = None \<and> startswith (strip l) ''#:'' then Some Statement
               else if dt = None \<and> startswith (strip l) ''#'' then Some Block else dt"
    have "?dt = classify (lines @ [strip l])"
      using True Cons.prems(2) by (auto simp: classify_snoc is_comment_def)
    then have "hashtag_scan ls (lines @ [strip l]) ?dt =
        ((lines @ [strip l]) @ takeWhile is_comment (map strip ls),
         classify ((lines @ [strip l]) @ takeWhile is_comment (map strip ls)))"
      by (intro Cons.IH) simp_all
    moreover have "hashtag_scan (l # ls) lines dt = hashtag_scan ls (lines @ [strip l]) ?dt"
      using True Cons.prems(1) by (simp add: strip_strip is_comment_def Let_def)
    ultimately show ?thesis using True by simp
  qed
qed

lemma classify_single:
  "classify [line] =
     (if startswith line ''#:'' then Some Statement
      else if startswith line ''#'' then Some Block else None)"
  by (auto simp: classify_def is_comment_def dest: marker_is_comment[unfolded is_comment_def])

lemma hashtag_scan_start:
  "hashtag_scan ls [] None = (scan_lines ls, classify (scan_lines ls))"
proof (induction ls)
  case Nil
  show ?case by (simp add: scan_lines_def classify_def)
next
  case (Cons l ls)
  show ?case
  proof (cases "strip l = []")
    case True
    then show ?thesis using Cons by (simp add: scan_lines_def startswith_def strip_Nil)
  next
    case False
    have "hashtag_scan ls [strip l] (classify [strip l]) =
        ([strip l] @ takeWhile is_comment (map strip ls),
         classify ([strip l] @ takeWhile is_comment (map strip ls)))"
      by (rule hashtag_scan_run) simp_all
    moreover have "hashtag_scan (l # ls) [] None = hashtag_scan ls [strip l] (classify [strip l])"
      using False by (simp add: strip_strip classify_single Let_def)
    ultimately show ?thesis using False by (simp add: scan_lines_def)
  qed
qed


lemma scan_lines_subset: "set (scan_lines ls) \<subseteq> strip ` set ls"
proof (cases "dropWhile (\<lambda>l. l = []) (map strip ls)")
  case Nil
  show ?thesis unfolding scan_lines_def Nil by simp
next
  case (Cons l0 rest)
  have "set (scan_lines ls) \<subseteq> set (l0 # rest)"
    using Cons by (auto simp: scan_lines_def dest: set_takeWhileD)
  also have "\<dots> = set (dropWhile (\<lambda>l. l = []) (map strip ls))"
    using Cons by simp
  also have "\<dots> \<subseteq> set (map strip ls)"
    by (auto dest: set_dropWhileD)
  finally show ?thesis by simp
qed

lemma is_comment_nonempty: "is_comment l \<Longrightarrow> l \<noteq> []"
  by (auto simp: is_comment_def startswith_def)

lemma scan_lines_nonempty: "l \<in> set (scan_lines ls) \<Longrightarrow> l \<noteq> []"
proof -
  assume l: "l \<in> set (scan_lines ls)"
  show ?thesis
  proof (cases "dropWhile (\<lambda>l. l = []) (map strip ls)")
    case Nil
    with l show ?thesis by (simp add: scan_lines_def)
  next
    case (Cons l0 rest)
    then have "l0 \<noteq> []" using hd_dropWhile[of "\<lambda>l. l = []" "map strip ls"] by auto
    with l Cons show ?thesis
      by (auto simp: scan_lines_def dest!: set_takeWhileD is_comment_nonempty)
  qed
qed

lemma classify_None_iff: "classify lines = None \<longleftrightarrow> find_first is_comment lines = None"
  by (simp add: classify_def split: option.splits)

lemma classify_last:
  assumes "classify (scan_lines ls) \<noteq> None"
  shows "scan_lines ls \<noteq> [] \<and> is_comment (last (scan_lines ls))"
proof (cases "dropWhile (\<lambda>l. l = []) (map strip ls)")
  case Nil
  with assms show ?thesis by (simp add: scan_lines_def classify_def)
next
  case (Cons l0 rest)
  show ?thesis
  proof (cases "takeWhile is_comment rest = []")
    case True
    with assms Cons show ?thesis
      by (auto simp: scan_lines_def classify_def split: if_splits)
  next
    case False
    then have "last (takeWhile is_comment rest) \<in> set (takeWhile is_comment rest)" by simp
    then have "is_comment (last (takeWhile is_comment rest))" by (auto dest: set_takeWhileD)
    with False Cons show ?thesis by (simp add: scan_lines_def)
  qed
qed

lemma classify_Statement_marker:
  "classify lines = Some Statement \<Longrightarrow> \<exists>l \<in> set lines. startswith l ''#:''"
  by (auto simp: classify_def split: option.splits if_splits dest: find_first_in_set)

lemma join_Cons_nonempty: "x \<noteq> [] \<Longrightarrow> join sep (x # xs) = hd x # tl (join sep (x # xs))"
  by (cases xs; cases x) auto

lemma join_nonempty: "xs \<noteq> [] \<Longrightarrow> last xs \<noteq> [] \<Longrightarrow> join sep xs \<noteq> []"
  by (induction sep xs rule: join.induct) simp_all

lemma join_last: "xs \<noteq> [] \<Longrightarrow> last xs \<noteq> [] \<Longrightarrow> last (join sep xs) = last (last xs)"
proof (induction sep xs rule: join.induct)
  case (3 sep x y ys)
  then have "join sep (y # ys) \<noteq> []" by (intro join_nonempty) simp_all
  with 3 show ?case by simp
qed simp_all

lemma stripped_join:
  assumes ne: "xs \<noteq> []" and all: "\<And>x. x \<in> set xs \<Longrightarrow> x \<noteq> [] \<and> stripped x"
  shows "stripped (join sep xs)"
proof -
  obtain x rest where xs: "xs = x # rest" using ne by (cases xs) auto
  with all have x: "x \<noteq> []" "stripped x" by auto
  from ne all have l: "last xs \<noteq> []" "stripped (last xs)" by auto
  have "join sep xs = hd x # tl (join sep xs)"
    using join_Cons_nonempty[OF x(1), of sep rest] xs by simp
  then have h: "hd (join sep xs) = hd x" "join sep xs \<noteq> []"
    by (metis list.sel(1), metis list.distinct(1))
  have "last (join sep xs) = last (last xs)" using ne l(1) by (rule join_last)
  with h x l show ?thesis by (auto simp: stripped_def)
qed

lemma unmark_line_stripped: "stripped l \<Longrightarrow> unmark_line l = remove_marker l"
  by (simp add: unmark_line_def remove_marker_def strip_id Let_def)

lemma prepare_docstring_run:
  assumes dt: "classify (scan_lines (rev (split_nl prefix))) \<noteq> None"
  shows "prepare_docstring (join_nl (comment_run prefix))
       = Some (strip (join_nl (map remove_marker (comment_run prefix))))"
proof -
  let ?lines = "scan_lines (rev (split_nl prefix))"
  let ?run = "comment_run prefix"
  have run: "?run = rev ?lines" by (simp add: comment_run_def)
  from classify_last[OF dt] have ne: "?run \<noteq> []" and top: "is_comment (hd ?run)"
    by (simp_all add: run hd_rev)
  have elems: "x \<noteq> [] \<and> stripped x \<and> NL \<notin> set x" if "x \<in> set ?run" for x
  proof -
    from that have x: "x \<in> set ?lines" by (simp add: run)
    then obtain r where r: "r \<in> set (split_nl prefix)" "x = strip r"
      using scan_lines_subset[of "rev (split_nl prefix)"] by auto
    from r(1) have "NL \<notin> set r" by (simp add: split_nl_def split_on_no_sep)
    with r(2) have "NL \<notin> set x" using set_strip[of r] by auto
    with x r(2) show ?thesis by (simp add: scan_lines_nonempty stripped_strip)
  qed
  have "stripped (join_nl ?run)"
    unfolding join_nl_def using ne elems by (intro stripped_join) auto
  then have s: "strip (join_nl ?run) = join_nl ?run" by (rule strip_id)
  obtain x rest where xs: "?run = x # rest" using ne by (cases ?run) auto
  with top obtain x' where x: "x = CHR ''#'' # x'"
    by (cases x) (auto simp: is_comment_def startswith_def)
  have hash: "startswith (join_nl ?run) ''#''"
    unfolding xs x join_nl_def by (cases rest) (auto simp: startswith_def)
  have split: "split_nl (join_nl ?run) = ?run"
    unfolding split_nl_def join_nl_def using ne elems by (intro split_on_join) auto
  have m: "map unmark_line ?run = map remove_marker ?run"
    by (rule map_cong) (simp_all add: elems unmark_line_stripped)
  have "prepare_docstring (join_nl ?run) = Some (strip (join_nl (map unmark_line ?run)))"
    using s hash split by (simp add: prepare_docstring_def Let_def)
  then show ?thesis by (simp only: m)
qed

text \<open>
  C3. For every statement node, \<open>get_statement_docstring\<close> returns, without raising: a
  docstring exactly when the whitespace at the end of the most recent prefix (what lies
  between the comment run and the statement) holds exactly one newline and the comment
  run is classified as a statement docstring by the marker \<open>#:\<close>; that docstring is the
  text of the run with the marker removed from each line, joined by newlines and
  stripped; and a run none of whose lines has the marker \<open>#:\<close> gives \<open>None\<close>.
\<close>

theorem get_statement_docstring_spec:
  "\<exists>prefix. get_most_recent_prefix node = Inr prefix
     \<and> get_statement_docstring node =
         Inr (if count_char NL (takeWhile isspace (rev prefix)) = 1
                 \<and> run_doc_type (comment_run prefix) = Some Statement
              then Some (strip (join_nl (map remove_marker (comment_run prefix))))
              else None)
     \<and> ((\<forall>l \<in> set (comment_run prefix). \<not> startswith l ''#:'')
          \<longrightarrow> get_statement_docstring node = Inr None)"
proof -
  obtain t ctx where node: "node = (t, ctx)" by (cases node)
  let ?prefix = "trivia_spec t ctx"
  let ?lines = "scan_lines (rev (split_nl ?prefix))"
  have p: "get_most_recent_prefix node = Inr ?prefix"
    unfolding node by (rule get_most_recent_prefix_trivia)
  have dt: "run_doc_type (comment_run ?prefix) = classify ?lines"
    by (simp add: run_doc_type_def comment_run_def)
  have h: "get_hashtag_docstring_from_prefix node =
      Inr (prepare_docstring (join_nl (comment_run ?prefix)), classify ?lines)"
    by (simp add: get_hashtag_docstring_from_prefix_def p hashtag_scan_start comment_run_def)
  have eq: "get_statement_docstring node =
         Inr (if count_char NL (takeWhile isspace (rev ?prefix)) = 1
                 \<and> run_doc_type (comment_run ?prefix) = Some Statement
              then Some (strip (join_nl (map remove_marker (comment_run ?prefix))))
              else None)"
  proof (cases "classify ?lines = Some Statement")
    case True
    then have "classify ?lines \<noteq> None" by simp
    from prepare_docstring_run[OF this] True show ?thesis
      by (simp add: get_statement_docstring_def p h dt Let_def)
  next
    case False
    then show ?thesis
      by (simp add: get_statement_docstring_def p h dt Let_def)
  qed
  have "get_statement_docstring node = Inr None"
    if "\<forall>l \<in> set (comment_run ?prefix). \<not> startswith l ''#:''"
  proof -
    from that have "classify ?lines \<noteq> Some Statement"
      using classify_Statement_marker[of ?lines] by (auto simp: comment_run_def)
    then show ?thesis by (simp add: eq dt)
  qed
  with p eq show ?thesis by blast
qed

text \<open>
  An assignment under the comment lines \<open># about x\<close> and \<open>#: the x\<close>, and one under the
  single line \<open># only y\<close>.
\<close>

theorem get_statement_docstring_spec_witness:
  "get_statement_docstring
     (Node syms_expr_stmt
        [Leaf (other_kind 1) ''x'' (''# about x'' @ [NL] @ ''#: the x'' @ [NL]) 3,
         Leaf token_EQUAL ''='' '' '' 3, Leaf (other_kind 2) ''1'' '' '' 3],
      [([], syms_simple_stmt, [Leaf (other_kind 4) [NL] [] 3])])
   = Inr (Some ''about x\<newline>the x'')
   \<and> get_statement_docstring
     (Node syms_expr_stmt
        [Leaf (other_kind 1) ''y'' (''# only y'' @ [NL]) 3,
         Leaf token_EQUAL ''='' '' '' 3, Leaf (other_kind 2) ''1'' '' '' 3],
      [([], syms_simple_stmt, [Leaf (other_kind 4) [NL] [] 3])])
   = Inr None"
proof
  let ?n = "(Node syms_expr_stmt
        [Leaf (other_kind 1) ''x'' (''# about x'' @ [NL] @ ''#: the x'' @ [NL]) 3,
         Leaf token_EQUAL ''='' '' '' 3, Leaf (other_kind 2) ''1'' '' '' 3],
      [([], syms_simple_stmt, [Leaf (other_kind 4) [NL] [] 3])])"
  let ?p = "''# about x'' @ [NL] @ ''#: the x'' @ [NL]"
  have p: "get_most_recent_prefix ?n = Inr ?p"
    by (simp add: get_most_recent_prefix_def)
  from get_statement_docstring_spec[of ?n] obtain prefix
    where a: "get_most_recent_prefix ?n = Inr prefix"
      and b: "get_statement_docstring ?n =
         Inr (if count_char NL (takeWhile isspace (rev prefix)) = 1
                 \<and> run_doc_type (comment_run prefix) = Some Statement
              then Some (strip (join_nl (map remove_marker (comment_run prefix))))
              else None)"
    by blast
  from a p have "prefix = ?p" by simp
  with b have "get_statement_docstring ?n =
         Inr (if count_char NL (takeWhile isspace (rev ?p)) = 1
                 \<and> run_doc_type (comment_run ?p) = Some Statement
              then Some (strip (join_nl (map remove_marker (comment_run ?p))))
              else None)"
    by simp
  also have "(if count_char NL (takeWhile isspace (rev ?p)) = 1
                 \<and> run_doc_type (comment_run ?p) = Some Statement
              then Some (strip (join_nl (map remove_marker (comment_run ?p))))
              else None) = Some ''about x\<newline>the x''"
    by code_simp
  finally show "get_statement_docstring ?n = Inr (Some ''about x\<newline>the x'')" .
next
  let ?n = "(Node syms_expr_stmt
        [Leaf (other_kind 1) ''y'' (''# only y'' @ [NL]) 3,
         Leaf token_EQUAL ''='' '' '' 3, Leaf (other_kind 2) ''1'' '' '' 3],
      [([], syms_simple_stmt, [Leaf (other_kind 4) [NL] [] 3])])"
  let ?p = "''# only y'' @ [NL]"
  have p: "get_most_recent_prefix ?n = Inr ?p"
    by (simp add: get_most_recent_prefix_def)
  from get_statement_docstring_spec[of ?n] obtain prefix
    where a: "get_most_recent_prefix ?n = Inr prefix"
      and c: "(\<forall>l \<in> set (comment_run prefix). \<not> startswith l ''#:'')
          \<longrightarrow> get_statement_docstring ?n = Inr None"
    by blast
  from a p have e: "prefix = ?p" by simp
  have "comment_run ?p = [''# only y'']" by code_simp
  then have "\<forall>l \<in> set (comment_run ?p). \<not> startswith l ''#:''"
    by (simp add: startswith_def)
  with c e show "get_statement_docstring ?n = Inr None" by simp
qed

section \<open>Properties of the scanner\<close>

text \<open>
  C6. The claim: in manual-advance mode the helper raises at every step during which the
  caller has not moved the index. The generator compares the scanner's index with the
  index it had when the iteration started, not with the index at the start of the step.
  Over a list of two elements, a caller that advances once in the first step and never
  again is given the second element at every later step, and nothing is raised.
\<close>

theorem safe_iter_manual_no_raise: "safe_iter False \<lparr>lst = [x, y], idx = 0\<rparr>
     [\<lambda>s. s\<lparr>idx := idx s + 1\<rparr>, \<lambda>s. s, \<lambda>s. s] = ([x, y, y, y], None)"
  by (simp add: safe_iter_def safe_iter_head_def safe_iter_resume_def safe_iter_after_yield_def
        scanner_bool_def current_def index_at_def)

section \<open>Properties of the signature parser\<close>

declare parameters_loop.simps [simp del]

text \<open>
  C1. The claim: the parameter list \<open>(a, b=1, *args, c, d=2, **kwargs)\<close> gives the kinds
  positional, positional, positional remainder, keyword-only, keyword-only, keyword
  remainder. After \<open>*args\<close> the loop does not step over the comma that \<open>parse_argument\<close>
  stopped at, so from there on the separators are read as argument names: whatever the
  prefixes and line numbers of the tokens, the result has eight arguments, the commas
  and the second \<open>=\<close> among them, \<open>d\<close> and its default are lost, and \<open>kwargs\<close> is
  keyword-only.
\<close>

theorem parse_parameters_after_star_args: "parse_parameters (Some (Node syms_parameters
    [Leaf (other_kind 7) ''('' p0 n0,
     Node syms_typedargslist
       [Leaf (other_kind 1) ''a'' p1 n1, Leaf token_COMMA '','' p2 n2,
        Leaf (other_kind 1) ''b'' p3 n3, Leaf token_EQUAL ''='' p4 n4,
        Leaf (other_kind 2) ''1'' p5 n5, Leaf token_COMMA '','' p6 n6,
        Leaf token_STAR ''*'' p7 n7, Leaf (other_kind 1) ''args'' p8 n8,
        Leaf token_COMMA '','' p9 n9,
        Leaf (other_kind 1) ''c'' p10 n10, Leaf token_COMMA '','' p11 n11,
        Leaf (other_kind 1) ''d'' p12 n12, Leaf token_EQUAL ''='' p13 n13,
        Leaf (other_kind 2) ''2'' p14 n14, Leaf token_COMMA '','' p15 n15,
        Leaf token_DOUBLESTAR ''**'' p16 n16, Leaf (other_kind 1) ''kwargs'' p17 n17],
     Leaf (other_kind 8) '')'' p18 n18]))
  = Inr [Argument ''a'' None None POS,
      Argument ''b'' None (Some (Expression ''1'')) POS,
      Argument ''args'' None None POS_REMAINDER,
      Argument '','' None None KW_ONLY, Argument '','' None None KW_ONLY,
      Argument ''='' None None KW_ONLY, Argument '','' None None KW_ONLY,
      Argument ''kwargs'' None None KW_ONLY]"
  by (simp add: parse_parameters_def parameters_loop.simps safe_iter_head_def
        safe_iter_after_yield_def scanner_bool_def current_def index_at_def
        parameters_body_def parse_argument_def parse_annotated_name_def advance_def
        node_to_string_def nodes_to_string_def Let_def)

section \<open>Properties of the declaration parser\<close>

declare parse_declaration.simps [simp del] parse_classdef.simps [simp del]

text \<open>
  The metaclass of the class that \<open>parse_classdef\<close> returns is the one read from the
  class arguments: without an argument list it is \<open>None\<close>, whatever the body holds.
\<close>

lemma parse_classdef_metaclass:
  assumes "parse_classdef file node decorators = Inr (created, Some (Class l n d bases m ds members))"
    and "find_first (\<lambda>x. node_type x = syms_arglist) (children (fst node)) = None"
  shows "m = None"
  using assms
  by (subst (asm) parse_classdef.simps)
     (auto simp: Let_def split: sum.splits option.splits prod.splits)

text \<open>
  C2. The claim: a class whose body assigns \<open>__metaclass__ = Meta\<close>, and whose header has
  no \<open>metaclass\<close> keyword, gets the metaclass \<open>Expression("Meta")\<close>, and the assignment
  is not among its members. For \<open>class C:\<close> with the body \<open>__metaclass__ = Meta\<close> the
  assignment is retracted from the members, but the class keeps the metaclass
  \<open>None\<close> it was constructed with: the loop assigns the local variable only.
\<close>

theorem parse_classdef_metaclass_not_promoted: "parse_declaration ''m.py''
     (Node syms_classdef
        [Leaf (other_kind 1) ''class'' [] 1, Leaf (other_kind 1) ''C'' '' '' 1,
         Leaf token_COLON '':'' [] 1,
         Node syms_suite
           [Leaf (other_kind 4) [NL] [] 1, Leaf (other_kind 5) [] [] 2,
            Node syms_simple_stmt
              [Node syms_expr_stmt
                 [Leaf (other_kind 1) ''__metaclass__'' ''  '' 2,
                  Leaf token_EQUAL ''='' '' '' 2, Leaf (other_kind 1) ''Meta'' '' '' 2],
               Leaf (other_kind 4) [NL] [] 2],
            Leaf (other_kind 6) [] [] 3]], []) None
   = Inr ([Class (Location ''m.py'' (Some 1)) ''C'' None [] None None []],
          Some (Class (Location ''m.py'' (Some 1)) ''C'' None [] None None []))"
  by code_simp

text \<open>
  The children of a statement cut at the \<open>=\<close> leaves, as the specification reads an
  assignment: every segment but the last is a target, the last is the value.
\<close>

fun split_at_equals :: "tree list \<Rightarrow> tree list list" where
  "split_at_equals [] = [[]]"
| "split_at_equals (c # cs) =
     (if is_equal_sign c then [] # split_at_equals cs
      else (case split_at_equals cs of [] \<Rightarrow> [[c]] | seg # segs \<Rightarrow> (c # seg) # segs))"

lemma split_at_equals_nonempty: "split_at_equals cs \<noteq> []"
  by (induction cs) (auto split: list.splits)

lemma length_split_at_equals:
  "length (split_at_equals cs) = Suc (length (filter is_equal_sign cs))"
  by (induction cs) (auto split: list.splits simp: split_at_equals_nonempty)

lemma statement_scan_segments:
  "statement_scan cs a names e =
     (case split_at_equals cs of
        [] \<Rightarrow> (a, names, e)
      | [seg] \<Rightarrow> (a, names, e @ seg)
      | seg # rest \<Rightarrow> (True, names @ (e @ seg) # butlast rest, last rest))"
proof (induction cs arbitrary: a names e)
  case Nil
  show ?case by simp
next
  case (Cons c cs)
  obtain seg segs where s: "split_at_equals cs = seg # segs"
    using split_at_equals_nonempty[of cs] by (cases "split_at_equals cs") auto
  show ?case
  proof (cases "is_equal_sign c")
    case True
    then show ?thesis using Cons[of True "names @ [e]" "[]"] s
      by (cases segs) auto
  next
    case False
    then show ?thesis using Cons[of a names "e @ [c]"] s
      by (cases segs) auto
  qed
qed

lemma get_hashtag_docstring_from_prefix_returns:
  "\<exists>r. get_hashtag_docstring_from_prefix node = Inr r"
  by (cases node) (simp add: get_hashtag_docstring_from_prefix_def get_most_recent_prefix_trivia
        split: prod.splits)

lemma get_statement_docstring_returns:
  "\<exists>d. get_statement_docstring node = Inr d"
proof -
  obtain r where "get_hashtag_docstring_from_prefix node = Inr r"
    using get_hashtag_docstring_from_prefix_returns by blast
  then show ?thesis
    by (cases node) (simp add: get_statement_docstring_def get_most_recent_prefix_trivia Let_def
        split: prod.splits)
qed

text \<open>
  An \<open>=\<close> token anywhere in a statement: the statement \<open>contains\<close> one when a leaf below
  it, at any depth, has the value \<open>=\<close>.
\<close>

fun contains_equal_sign :: "tree \<Rightarrow> bool" where
  "contains_equal_sign (Leaf k v p n) = (v = ''='')"
| "contains_equal_sign (Node k cs) = (\<exists>c \<in> set cs. contains_equal_sign c)"

text \<open>
  C4, as claimed: every expression statement that contains an \<open>=\<close> token gives one
  \<open>Data\<close> per target. The annotated assignment \<open>x: int = 1\<close> is an expression statement
  with the children \<open>x\<close> and an \<open>annassign\<close> node, which holds the \<open>=\<close>: the statement
  contains an \<open>=\<close> token, \<open>parse_statement\<close> looks at the direct children only, constructs
  nothing and returns \<open>None\<close>.
\<close>

theorem parse_statement_annotated_assignment:
  "contains_equal_sign
     (Node syms_expr_stmt
        [Leaf (other_kind 1) ''x'' [] 1,
         Node (other_kind 259)
           [Leaf token_COLON '':'' [] 1, Leaf (other_kind 1) ''int'' '' '' 1,
            Leaf token_EQUAL ''='' '' '' 1, Leaf (other_kind 2) ''1'' '' '' 1]])
   \<and> parse_statement ''m.py''
     (Node syms_expr_stmt
        [Leaf (other_kind 1) ''x'' [] 1,
         Node (other_kind 259)
           [Leaf token_COLON '':'' [] 1, Leaf (other_kind 1) ''int'' '' '' 1,
            Leaf token_EQUAL ''='' '' '' 1, Leaf (other_kind 2) ''1'' '' '' 1]],
      [([], syms_simple_stmt, [Leaf (other_kind 4) [NL] [] 1])])
     = Inr ([], None)"
  by (simp add: parse_statement_def)

text \<open>
  C4, amended. For every expression statement, \<open>parse_statement\<close> does not raise. If one
  of the direct children of the statement is an \<open>=\<close> token, it constructs one \<open>Data\<close> per
  target, that is per segment of children before such an \<open>=\<close>, as many as there are
  \<open>=\<close> tokens among the children, in order, each named by the text of its segment; all
  have the location of the statement, the one statement docstring, and the one
  \<open>Expression\<close> of the text after the last of these \<open>=\<close>; it returns the last \<open>Data\<close>.
  If none of the direct children is an \<open>=\<close> token, it constructs nothing and returns
  \<open>None\<close>.
\<close>

theorem parse_statement_spec:
  "\<exists>docstring. get_statement_docstring stmt = Inr docstring
     \<and> parse_statement file stmt =
        (let segments = split_at_equals (children (fst stmt));
             expr = Expression (nodes_to_string (last segments));
             datas = map (\<lambda>name. Data (location_from file (fst stmt)) (nodes_to_string name)
                                   docstring expr) (butlast segments)
         in if list_ex is_equal_sign (children (fst stmt))
            then Inr (datas, Some (last datas))
            else Inr ([], None))
     \<and> length (butlast (split_at_equals (children (fst stmt))))
         = length (filter is_equal_sign (children (fst stmt)))"
proof -
  obtain d where d: "get_statement_docstring stmt = Inr d"
    using get_statement_docstring_returns by blast
  let ?cs = "children (fst stmt)"
  obtain seg segs where s: "split_at_equals ?cs = seg # segs"
    using split_at_equals_nonempty[of ?cs] by (cases "split_at_equals ?cs") auto
  have len: "length segs = length (filter is_equal_sign ?cs)"
    using length_split_at_equals[of ?cs] s by simp
  have "list_ex is_equal_sign ?cs \<longleftrightarrow> filter is_equal_sign ?cs \<noteq> []"
    by (simp add: list_ex_iff filter_empty_conv)
  also have "\<dots> \<longleftrightarrow> segs \<noteq> []"
    using len by (metis length_0_conv)
  finally have ex: "list_ex is_equal_sign ?cs \<longleftrightarrow> segs \<noteq> []" .
  have scan: "statement_scan ?cs False [] [] =
      (if segs = [] then (False, [], seg) else (True, seg # butlast segs, last segs))"
    using statement_scan_segments[of ?cs False "[]" "[]"] s by (cases segs) auto
  have "parse_statement file stmt =
        (let segments = split_at_equals ?cs;
             expr = Expression (nodes_to_string (last segments));
             datas = map (\<lambda>name. Data (location_from file (fst stmt)) (nodes_to_string name)
                                   d expr) (butlast segments)
         in if list_ex is_equal_sign ?cs
            then Inr (datas, Some (last datas))
            else Inr ([], None))"
    by (simp add: parse_statement_def scan d s ex Let_def)
  moreover have "length (butlast (split_at_equals ?cs)) = length (filter is_equal_sign ?cs)"
    by (simp add: length_split_at_equals)
  ultimately show ?thesis using d by blast
qed

text \<open>The statements \<open>a = b = 1\<close> under the comment \<open>#: doc\<close>, and \<open>a += 1\<close>.\<close>

theorem parse_statement_spec_witness:
  "parse_statement ''m.py''
     (Node syms_expr_stmt
        [Leaf (other_kind 1) ''a'' (''#: doc'' @ [NL]) 2, Leaf token_EQUAL ''='' '' '' 2,
         Leaf (other_kind 1) ''b'' '' '' 2, Leaf token_EQUAL ''='' '' '' 2,
         Leaf (other_kind 2) ''1'' '' '' 2],
      [([], syms_simple_stmt, [Leaf (other_kind 4) [NL] [] 2])])
   = Inr ([Data (Location ''m.py'' (Some 2)) ''a'' (Some ''doc'') (Expression ''1''),
           Data (Location ''m.py'' (Some 2)) ''b'' (Some ''doc'') (Expression ''1'')],
          Some (Data (Location ''m.py'' (Some 2)) ''b'' (Some ''doc'') (Expression ''1'')))
   \<and> parse_statement ''m.py''
     (Node syms_expr_stmt
        [Leaf (other_kind 1) ''a'' [] 2, Leaf (other_kind 37) ''+='' '' '' 2,
         Leaf (other_kind 2) ''1'' '' '' 2],
      [([], syms_simple_stmt, [Leaf (other_kind 4) [NL] [] 2])])
   = Inr ([], None)"
proof
  let ?n = "(Node syms_expr_stmt
        [Leaf (other_kind 1) ''a'' (''#: doc'' @ [NL]) 2, Leaf token_EQUAL ''='' '' '' 2,
         Leaf (other_kind 1) ''b'' '' '' 2, Leaf token_EQUAL ''='' '' '' 2,
         Leaf (other_kind 2) ''1'' '' '' 2],
      [([], syms_simple_stmt, [Leaf (other_kind 4) [NL] [] 2])])"
  have d: "get_statement_docstring ?n = Inr (Some ''doc'')" by code_simp
  have s: "split_at_equals (children (fst ?n)) =
      [[Leaf (other_kind 1) ''a'' (''#: doc'' @ [NL]) 2], [Leaf (other_kind 1) ''b'' '' '' 2],
       [Leaf (other_kind 2) ''1'' '' '' 2]]"
    by simp
  from parse_statement_spec[of ?n "''m.py''"] show "parse_statement ''m.py'' ?n
   = Inr ([Data (Location ''m.py'' (Some 2)) ''a'' (Some ''doc'') (Expression ''1''),
           Data (Location ''m.py'' (Some 2)) ''b'' (Some ''doc'') (Expression ''1'')],
          Some (Data (Location ''m.py'' (Some 2)) ''b'' (Some ''doc'') (Expression ''1'')))"
    unfolding d s by (auto simp: nodes_to_string_def location_from_def)
next
  let ?n = "(Node syms_expr_stmt
        [Leaf (other_kind 1) ''a'' [] 2, Leaf (other_kind 37) ''+='' '' '' 2,
         Leaf (other_kind 2) ''1'' '' '' 2],
      [([], syms_simple_stmt, [Leaf (other_kind 4) [NL] [] 2])])"
  from parse_statement_spec[of ?n "''m.py''"] show "parse_statement ''m.py'' ?n = Inr ([], None)"
    by auto
qed

text \<open>
  C5, as claimed: every arrangement of nodes that the extractor does not recognise for
  the declaration it expects fails with a parse error that carries the kind of the
  offending node and its location, and none is skipped silently. An \<open>if\<close> statement at
  module level has a kind that \<open>parse_declaration\<close> does not dispatch on: nothing is
  raised, \<open>None\<close> is returned and no entity is constructed. A decorated declaration whose
  first child is a name fails, and the error is the same on line 1 and on line 9: it
  holds the kind of that child and nothing of the location.
\<close>

theorem parse_declaration_if_silent_no_location:
  "parse_declaration ''m.py''
     (Node (other_kind 297)
        [Leaf (other_kind 1) ''if'' [] 1, Leaf (other_kind 1) ''x'' '' '' 1,
         Leaf token_COLON '':'' [] 1,
         Node syms_suite
           [Leaf (other_kind 4) [NL] [] 1, Leaf (other_kind 5) [] [] 2,
            Node syms_simple_stmt
              [Node syms_expr_stmt
                 [Leaf (other_kind 1) ''y'' ''  '' 2, Leaf token_EQUAL ''='' '' '' 2,
                  Leaf (other_kind 2) ''1'' '' '' 2],
               Leaf (other_kind 4) [NL] [] 2],
            Leaf (other_kind 6) [] [] 3]],
      [([], other_kind 256, [Leaf (other_kind 0) [] [] 3])])
     None = Inr ([], None)
   \<and> parse_declaration ''m.py''
     (Node syms_decorated
        [Leaf (other_kind 1) ''x'' [] 1,
         Node syms_funcdef [Leaf (other_kind 1) ''def'' [] 2]], [])
     None = Inl (AssertionError (KindMsg (other_kind 1)))
   \<and> parse_declaration ''m.py''
     (Node syms_decorated
        [Leaf (other_kind 1) ''x'' [] 9,
         Node syms_funcdef [Leaf (other_kind 1) ''def'' [] 10]], [])
     None = Inl (AssertionError (KindMsg (other_kind 1)))"
  by code_simp

text \<open>
  C5, amended. A node whose kind is none of those \<open>parse_declaration\<close> dispatches on
  (simple statement, function definition, class definition, the two async wrappers,
  decorated declaration) does not fail: it is skipped, \<open>parse_declaration\<close> returns
  \<open>None\<close> and constructs no entity. A decorated declaration with two children whose
  first child is neither a decorator nor a list of decorators fails at once, with an
  assertion error that carries the kind of that child; the error holds no location.
\<close>

theorem parse_declaration_unrecognized:
  "(node_type (fst node) \<notin> {syms_simple_stmt, syms_funcdef, syms_classdef, syms_async_stmt,
        syms_async_funcdef, syms_decorated}
      \<longrightarrow> parse_declaration file node decorators = Inr ([], None))
   \<and> (node_type (fst node) = syms_decorated \<and> children (fst node) = [c0, c1]
        \<and> node_type c0 \<noteq> syms_decorator \<and> node_type c0 \<noteq> syms_decorators
      \<longrightarrow> parse_declaration file node decorators
            = Inl (AssertionError (KindMsg (node_type c0))))"
proof (intro conjI impI)
  assume "node_type (fst node) \<notin> {syms_simple_stmt, syms_funcdef, syms_classdef, syms_async_stmt,
        syms_async_funcdef, syms_decorated}"
  then show "parse_declaration file node decorators = Inr ([], None)"
    by (subst parse_declaration.simps) simp
next
  assume a: "node_type (fst node) = syms_decorated \<and> children (fst node) = [c0, c1]
        \<and> node_type c0 \<noteq> syms_decorator \<and> node_type c0 \<noteq> syms_decorators"
  then obtain ctx where n: "node = (Node syms_decorated [c0, c1], ctx)"
    by (cases node, cases "fst node") auto
  from a show "parse_declaration file node decorators
            = Inl (AssertionError (KindMsg (node_type c0)))"
    unfolding n by (subst parse_declaration.simps) (simp add: index_at_def)
qed

text \<open>
  A \<open>while\<close> statement at module level, and a decorated declaration whose first child
  is a string.
\<close>

theorem parse_declaration_unrecognized_witness:
  "parse_declaration ''m.py''
     (Node (other_kind 339)
        [Leaf (other_kind 1) ''while'' [] 1, Leaf (other_kind 1) ''x'' '' '' 1,
         Leaf token_COLON '':'' [] 1,
         Node syms_simple_stmt
           [Leaf (other_kind 1) ''pass'' '' '' 1, Leaf (other_kind 4) [NL] [] 1]], [])
     None = Inr ([], None)
   \<and> parse_declaration ''m.py''
     (Node syms_decorated
        [Leaf token_STRING ([DQ] @ ''s'' @ [DQ]) [] 1,
         Node syms_funcdef [Leaf (other_kind 1) ''def'' [] 2]], [])
     None = Inl (AssertionError (KindMsg token_STRING))"
proof (intro conjI)
  show "parse_declaration ''m.py''
     (Node (other_kind 339)
        [Leaf (other_kind 1) ''while'' [] 1, Leaf (other_kind 1) ''x'' '' '' 1,
         Leaf token_COLON '':'' [] 1,
         Node syms_simple_stmt
           [Leaf (other_kind 1) ''pass'' '' '' 1, Leaf (other_kind 4) [NL] [] 1]], [])
     None = Inr ([], None)"
    using parse_declaration_unrecognized
      [of "(Node (other_kind 339)
        [Leaf (other_kind 1) ''while'' [] 1, Leaf (other_kind 1) ''x'' '' '' 1,
         Leaf token_COLON '':'' [] 1,
         Node syms_simple_stmt
           [Leaf (other_kind 1) ''pass'' '' '' 1, Leaf (other_kind 4) [NL] [] 1]], [])"
          "''m.py''" None]
    by simp
next
  show "parse_declaration ''m.py''
     (Node syms_decorated
        [Leaf token_STRING ([DQ] @ ''s'' @ [DQ]) [] 1,
         Node syms_funcdef [Leaf (other_kind 1) ''def'' [] 2]], [])
     None = Inl (AssertionError (KindMsg token_STRING))"
    using parse_declaration_unrecognized
      [of "(Node syms_decorated
        [Leaf token_STRING ([DQ] @ ''s'' @ [DQ]) [] 1,
         Node syms_funcdef [Leaf (other_kind 1) ''def'' [] 2]], [])"
          "''m.py''" None
          "Leaf token_STRING ([DQ] @ ''s'' @ [DQ]) [] 1"
          "Node syms_funcdef [Leaf (other_kind 1) ''def'' [] 2]"]
    by simp
qed

end
